theory Spec2Isabelle
  imports Complex_Main "HOL-Library.Word" "HOL-Library.AList"
begin

section \<open>Values\<close>

text \<open>
  A JavaScript string is a sequence of UTF-16 code units. String literals of the source
  are written \<open>js ''...''\<close>.
\<close>

type_synonym jsstring = "16 word list"

abbreviation js :: "string \<Rightarrow> jsstring" where
  "js s \<equiv> map of_char s"

text \<open>
  The values that travel through the handlers: parsed JSON request bodies, the documents
  of the database and the arguments of \<^verbatim>\<open>res.json\<close>. \<open>JObjectId\<close> is the
  identifier the database driver puts under \<^verbatim>\<open>_id\<close>. A JavaScript number is an
  IEEE double; the model keeps its exact rational value, so that integers of any size are
  exact (in JavaScript they are exact up to \<open>2^53\<close>, which covers every id the sequence
  counter hands out in practice). \<^verbatim>\<open>-0\<close> is identified with \<open>0\<close>.
  \<^verbatim>\<open>undefined\<close> is \<open>None\<close> of \<open>jsval option\<close>.
\<close>

datatype jsval =
    JNull
  | JBool bool
  | JNum rat
  | JStr jsstring
  | JArr "jsval list"
  | JObj "(jsstring \<times> jsval) list"
  | JObjectId nat

type_synonym doc = "(jsstring \<times> jsval) list"

text \<open>The result of \<^verbatim>\<open>parseInt\<close>: \<^verbatim>\<open>NaN\<close> or a number.\<close>

datatype number = NaN | Finite rat

fun isNaN :: "number \<Rightarrow> bool" where
  "isNaN NaN = True"
| "isNaN (Finite q) = False"

text \<open>An exception: an \<^verbatim>\<open>Error\<close> object with its \<^verbatim>\<open>message\<close>.\<close>

datatype error = Error (message: jsstring)

subsection \<open>Truthiness\<close>

text \<open>
  \<^verbatim>\<open>!x\<close> of the source is \<open>\<not> truthy x\<close>: \<^verbatim>\<open>undefined\<close>, \<^verbatim>\<open>null\<close>,
  \<^verbatim>\<open>false\<close>, \<^verbatim>\<open>0\<close> and the empty string are falsy, every other value is truthy.
\<close>

fun truthy :: "jsval option \<Rightarrow> bool" where
  "truthy None = False"
| "truthy (Some JNull) = False"
| "truthy (Some (JBool b)) = b"
| "truthy (Some (JNum q)) = (q \<noteq> 0)"
| "truthy (Some (JStr s)) = (s \<noteq> [])"
| "truthy (Some (JArr xs)) = True"
| "truthy (Some (JObj kvs)) = True"
| "truthy (Some (JObjectId i)) = True"

subsection \<open>Decimal strings\<close>

definition digitChar :: "nat \<Rightarrow> 16 word" where
  "digitChar d = of_nat (48 + d)"

function digits :: "nat \<Rightarrow> jsstring" where
  "digits n = (if n < 10 then [digitChar n] else digits (n div 10) @ [digitChar (n mod 10)])"
  by pat_completeness auto
termination
  by (relation "measure (\<lambda>n. n)") auto

declare digits.simps [simp del]


subsection \<open>parseInt\<close>

text \<open>
  \<^verbatim>\<open>parseInt(string)\<close> with no radix, after ECMAScript: leading white space and line
  terminators are skipped, one sign is read, a prefix \<^verbatim>\<open>0x\<close> or \<^verbatim>\<open>0X\<close> selects
  radix 16 (radix 10 otherwise), and the longest prefix of digits of that radix is the
  number. With no digit the result is \<^verbatim>\<open>NaN\<close>. Whatever follows the digits is ignored.
  The number is kept as it is written (JavaScript rounds it to the nearest double once it
  is beyond \<open>2^53\<close>).
\<close>

definition isStrWhiteSpaceChar :: "16 word \<Rightarrow> bool" where
  "isStrWhiteSpaceChar c \<longleftrightarrow>
     c = 0x9 \<or> c = 0xA \<or> c = 0xB \<or> c = 0xC \<or> c = 0xD \<or> c = 0x20 \<or> c = 0xA0 \<or>
     c = 0x1680 \<or> (0x2000 \<le> c \<and> c \<le> 0x200A) \<or> c = 0x2028 \<or> c = 0x2029 \<or>
     c = 0x202F \<or> c = 0x205F \<or> c = 0x3000 \<or> c = 0xFEFF"

definition digitValue :: "16 word \<Rightarrow> nat" where
  "digitValue c =
     (if 0x30 \<le> c \<and> c \<le> 0x39 then unat c - 0x30
      else if 0x61 \<le> c \<and> c \<le> 0x7A then unat c - 0x61 + 10
      else if 0x41 \<le> c \<and> c \<le> 0x5A then unat c - 0x41 + 10
      else 36)"

definition isRadixDigit :: "nat \<Rightarrow> 16 word \<Rightarrow> bool" where
  "isRadixDigit R c \<longleftrightarrow> digitValue c < R"

definition mathInt :: "nat \<Rightarrow> jsstring \<Rightarrow> nat" where
  "mathInt R Z = foldl (\<lambda>acc c. acc * R + digitValue c) 0 Z"

definition parseInt :: "jsstring \<Rightarrow> number" where
  "parseInt inputString =
     (let S = dropWhile isStrWhiteSpaceChar inputString;
          sign = (if take 1 S = js ''-'' then - 1 else 1 :: int);
          S = (if take 1 S = js ''+'' \<or> take 1 S = js ''-'' then drop 1 S else S);
          stripPrefix = (take 2 S = js ''0x'' \<or> take 2 S = js ''0X'');
          R = (if stripPrefix then 16 else 10);
          S = (if stripPrefix then drop 2 S else S);
          Z = takeWhile (isRadixDigit R) S
      in if Z = [] then NaN else Finite (of_int (sign * int (mathInt R Z))))"

section \<open>Objects\<close>

text \<open>
  An object is an association list of its own enumerable properties; where a key occurs
  twice the first entry is the property. \<open>getProp\<close> is the property read of a
  destructuring pattern such as \<^verbatim>\<open>const { firstName } = req.body\<close> (for property
  names that are not inherited from a prototype): an array has its indices and
  \<^verbatim>\<open>length\<close>, a primitive has none of the names read here. The order of the entries
  is the order in which an object is built here and carries no further meaning: objects
  are compared field by field, through \<open>map_of\<close>.
\<close>

definition arrayProps :: "jsval list \<Rightarrow> doc" where
  "arrayProps xs = zip (map digits [0..<length xs]) xs"

fun getProp :: "jsval \<Rightarrow> jsstring \<Rightarrow> jsval option" where
  "getProp (JObj kvs) k = map_of kvs k"
| "getProp (JArr xs) k =
     (if k = js ''length'' then Some (JNum (of_nat (length xs))) else map_of (arrayProps xs) k)"
| "getProp v k = None"

text \<open>
  \<^verbatim>\<open>{ ...v }\<close>: a fresh object with the own enumerable properties of \<open>v\<close>, each
  once; spreading \<^verbatim>\<open>undefined\<close>, \<^verbatim>\<open>null\<close>, a number or a boolean gives the
  empty object, spreading a string gives its code units under their indices.
\<close>

fun spread :: "jsval option \<Rightarrow> doc" where
  "spread (Some (JObj kvs)) = AList.clearjunk kvs"
| "spread (Some (JArr xs)) = arrayProps xs"
| "spread (Some (JStr s)) = arrayProps (map (\<lambda>c. JStr [c]) s)"
| "spread v = []"

text \<open>
  An object literal \<^verbatim>\<open>{ k1, k2, ... }\<close> as a document to store or to send: a
  property holding \<^verbatim>\<open>undefined\<close> is left out, as \<^verbatim>\<open>JSON.stringify\<close> leaves it
  out.
\<close>

definition objectLiteral :: "(jsstring \<times> jsval option) list \<Rightarrow> doc" where
  "objectLiteral ps = List.map_filter (\<lambda>(k, v). map_option (Pair k) v) ps"

section \<open>The database\<close>

text \<open>
  The two collections the routes use, each the list of its documents in insertion
  order. The module variable \<^verbatim>\<open>db\<close> of \<^verbatim>\<open>db/connect.js\<close> is \<open>None\<close> until
  \<^verbatim>\<open>connectToDatabase\<close> has run.
\<close>

record database =
  contacts :: "doc list"
  counters :: "doc list"

type_synonym server = "database option"

text \<open>
  What a request meets besides the server: whether a call of the database driver fails
  (the \<open>i\<close>-th driver call of the handler throws an error with the given message), and
  the \<^verbatim>\<open>ObjectId\<close> the driver generates for an inserted document.
\<close>

record env =
  fault :: "nat \<Rightarrow> jsstring option"
  objectId :: nat

subsection \<open>Awaited computations that may throw\<close>

type_synonym 'a io = "server \<Rightarrow> (error + 'a) \<times> server"

definition ret :: "'a \<Rightarrow> 'a io" where
  "ret a = (\<lambda>s. (Inr a, s))"

definition throw :: "error \<Rightarrow> 'a io" where
  "throw e = (\<lambda>s. (Inl e, s))"

definition bnd :: "'a io \<Rightarrow> ('a \<Rightarrow> 'b io) \<Rightarrow> 'b io" where
  "bnd m f = (\<lambda>s. case m s of (Inl e, s') \<Rightarrow> (Inl e, s') | (Inr a, s') \<Rightarrow> f a s')"

text \<open>
  \<^verbatim>\<open>getDb().collection(c).op(...)\<close>: \<^verbatim>\<open>getDb\<close> throws when the database is not
  connected; otherwise the driver call throws the fault the environment holds for it,
  leaving the database as it was, or does \<open>op\<close>.
\<close>

definition getDb :: "(database \<Rightarrow> (error + 'a) \<times> database) \<Rightarrow> 'a io" where
  "getDb op = (\<lambda>s. case s of
       None \<Rightarrow> (Inl (Error (js ''Database not connected'')), s)
     | Some d \<Rightarrow> (case op d of (r, d') \<Rightarrow> (r, Some d')))"

definition driver :: "jsstring option \<Rightarrow> (database \<Rightarrow> (error + 'a) \<times> database)
    \<Rightarrow> database \<Rightarrow> (error + 'a) \<times> database" where
  "driver flt op d = (case flt of Some msg \<Rightarrow> (Inl (Error msg), d) | None \<Rightarrow> op d)"

subsection \<open>The driver's operations\<close>

text \<open>
  The filter \<^verbatim>\<open>{ id: idNum }\<close>: the field \<^verbatim>\<open>id\<close> is that number, or an array that
  holds it.
\<close>

fun matchesId :: "number \<Rightarrow> doc \<Rightarrow> bool" where
  "matchesId NaN c = False"
| "matchesId (Finite q) c =
     (case map_of c (js ''id'') of
        Some (JNum r) \<Rightarrow> r = q
      | Some (JArr xs) \<Rightarrow> JNum q \<in> set xs
      | _ \<Rightarrow> False)"

fun updateFirst :: "('a \<Rightarrow> bool) \<Rightarrow> 'a \<Rightarrow> 'a list \<Rightarrow> 'a list" where
  "updateFirst P y [] = []"
| "updateFirst P y (x # xs) = (if P x then y # xs else x # updateFirst P y xs)"

fun deleteFirst :: "('a \<Rightarrow> bool) \<Rightarrow> 'a list \<Rightarrow> 'a list" where
  "deleteFirst P [] = []"
| "deleteFirst P (x # xs) = (if P x then xs else x # deleteFirst P xs)"

text \<open>\<^verbatim>\<open>collection("contacts").find().toArray()\<close>\<close>

definition find_toArray :: "database \<Rightarrow> (error + doc list) \<times> database" where
  "find_toArray d = (Inr (contacts d), d)"

text \<open>\<^verbatim>\<open>collection("contacts").findOne({ id: idNum })\<close>: the first match or \<^verbatim>\<open>null\<close>.\<close>

definition findOne :: "number \<Rightarrow> database \<Rightarrow> (error + doc option) \<times> database" where
  "findOne idNum d = (Inr (find (matchesId idNum) (contacts d)), d)"

text \<open>
  \<^verbatim>\<open>collection("contacts").insertOne(doc)\<close>: the document is stored with the generated
  \<^verbatim>\<open>_id\<close>; an \<^verbatim>\<open>_id\<close> that is already in the collection is a duplicate key error.
\<close>

definition insertOne :: "nat \<Rightarrow> doc \<Rightarrow> database \<Rightarrow> (error + unit) \<times> database" where
  "insertOne oid c d =
     (if \<exists>c' \<in> set (contacts d). map_of c' (js ''_id'') = Some (JObjectId oid)
      then (Inl (Error (js ''E11000 duplicate key error'')), d)
      else (Inr (), d\<lparr>contacts := contacts d @ [(js ''_id'', JObjectId oid) # c]\<rparr>))"

text \<open>
  \<^verbatim>\<open>$set\<close> with top-level field names: each field of the update is replaced in the
  document, or added at its end. The database refuses an update that would change
  \<^verbatim>\<open>_id\<close>. (A name with a dot addresses a field of an embedded document and is
  outside this model, as are the names the database rejects; see \<open>plainKey\<close>.)
\<close>

definition applySet :: "doc \<Rightarrow> doc \<Rightarrow> error + doc" where
  "applySet upd c =
     (case map_of upd (js ''_id'') of
        Some v \<Rightarrow>
          if map_of c (js ''_id'') = Some v then Inr (fold (\<lambda>(k, v). AList.update k v) upd c)
          else Inl (Error (js ''Performing an update on the path _id would modify the immutable field _id''))
      | None \<Rightarrow> Inr (fold (\<lambda>(k, v). AList.update k v) upd c))"

definition plainKey :: "jsstring \<Rightarrow> bool" where
  "plainKey k \<longleftrightarrow> k \<noteq> [] \<and> take 1 k \<noteq> js ''$'' \<and> of_char CHR ''.'' \<notin> set k \<and> 0 \<notin> set k"

text \<open>
  \<^verbatim>\<open>collection("contacts").updateOne({ id: idNum }, { $set: updateData })\<close>: the first
  match is updated; the result is the number of matched documents.
\<close>

definition updateOne :: "number \<Rightarrow> doc \<Rightarrow> database \<Rightarrow> (error + nat) \<times> database" where
  "updateOne idNum updateData d =
     (case find (matchesId idNum) (contacts d) of
        None \<Rightarrow> (Inr 0, d)
      | Some c \<Rightarrow>
          (case applySet updateData c of
             Inl e \<Rightarrow> (Inl e, d)
           | Inr c' \<Rightarrow> (Inr 1, d\<lparr>contacts := updateFirst (matchesId idNum) c' (contacts d)\<rparr>)))"

text \<open>
  \<^verbatim>\<open>collection("contacts").deleteOne({ id: idNum })\<close>: the first match is removed; the
  result is \<^verbatim>\<open>deletedCount\<close>.
\<close>

definition deleteOne :: "number \<Rightarrow> database \<Rightarrow> (error + nat) \<times> database" where
  "deleteOne idNum d =
     (case find (matchesId idNum) (contacts d) of
        None \<Rightarrow> (Inr 0, d)
      | Some c \<Rightarrow> (Inr 1, d\<lparr>contacts := deleteFirst (matchesId idNum) (contacts d)\<rparr>))"

text \<open>
  \<^verbatim>\<open>collection("counters").findOneAndUpdate({ _id: seqName }, { $inc: { seq: 1 } },
  { upsert: true, returnDocument: "after" })\<close>, one step of the database: the counter
  document of that name has its \<^verbatim>\<open>seq\<close> raised by one (a missing field counts as 0,
  a field that is not a number is an error), or is created with \<^verbatim>\<open>seq\<close> 1; the result
  is the document after the update, which the driver hands to the caller as it is (the
  way \<^verbatim>\<open>getNextSequence\<close> reads it, with \<^verbatim>\<open>counter.seq\<close>).
\<close>

definition matchesName :: "jsstring \<Rightarrow> doc \<Rightarrow> bool" where
  "matchesName seqName c \<longleftrightarrow> map_of c (js ''_id'') = Some (JStr seqName)"

definition findOneAndUpdate :: "jsstring \<Rightarrow> database \<Rightarrow> (error + doc) \<times> database" where
  "findOneAndUpdate seqName d =
     (case find (matchesName seqName) (counters d) of
        None \<Rightarrow>
          (let c = [(js ''_id'', JStr seqName), (js ''seq'', JNum 1)]
           in (Inr c, d\<lparr>counters := counters d @ [c]\<rparr>))
      | Some c \<Rightarrow>
          (case map_of c (js ''seq'') of
             None \<Rightarrow>
               (let c' = AList.update (js ''seq'') (JNum 1) c
                in (Inr c', d\<lparr>counters := updateFirst (matchesName seqName) c' (counters d)\<rparr>))
           | Some (JNum q) \<Rightarrow>
               (let c' = AList.update (js ''seq'') (JNum (q + 1)) c
                in (Inr c', d\<lparr>counters := updateFirst (matchesName seqName) c' (counters d)\<rparr>))
           | Some v \<Rightarrow>
               (Inl (Error (js ''Cannot apply $inc to a value of non-numeric type'')), d)))"

section \<open>The routes of routes/contacts.js\<close>

record response =
  status :: nat
  body :: jsval

text \<open>\<^verbatim>\<open>res.status(n).json(v)\<close>; \<^verbatim>\<open>res.json(v)\<close> is status 200.\<close>

definition json :: "nat \<Rightarrow> jsval \<Rightarrow> response io" where
  "json n v = ret \<lparr>status = n, body = v\<rparr>"

definition errorJson :: "jsstring \<Rightarrow> jsval" where
  "errorJson msg = JObj [(js ''error'', JStr msg)]"

text \<open>\<^verbatim>\<open>try { ... } catch (err) { res.status(500).json({ error: err.message }) }\<close>\<close>

definition catch :: "response io \<Rightarrow> server \<Rightarrow> response \<times> server" where
  "catch m s =
     (case m s of
        (Inl err, s') \<Rightarrow> (\<lparr>status = 500, body = errorJson (message err)\<rparr>, s')
      | (Inr r, s') \<Rightarrow> (r, s'))"

definition getNextSequence :: "jsstring option \<Rightarrow> jsstring \<Rightarrow> (jsval option) io" where
  "getNextSequence flt seqName =
     bnd (getDb (driver flt (findOneAndUpdate seqName)))
       (\<lambda>counter. ret (map_of counter (js ''seq'')))"

text \<open>\<^verbatim>\<open>router.get("/")\<close>\<close>

definition router_get_try :: "env \<Rightarrow> response io" where
  "router_get_try e =
     bnd (getDb (driver (fault e 0) find_toArray))
       (\<lambda>contacts. json 200 (JArr (map JObj contacts)))"

definition router_get :: "env \<Rightarrow> server \<Rightarrow> response \<times> server" where
  "router_get e = catch (router_get_try e)"

text \<open>\<^verbatim>\<open>router.get("/:id")\<close>\<close>

definition router_get_id_try :: "env \<Rightarrow> jsstring \<Rightarrow> response io" where
  "router_get_id_try e params_id =
     (let idNum = parseInt params_id in
      if isNaN idNum then json 400 (errorJson (js ''Invalid ID''))
      else
        bnd (getDb (driver (fault e 0) (findOne idNum)))
          (\<lambda>contact. case contact of
             None \<Rightarrow> json 404 (errorJson (js ''Contact not found''))
           | Some c \<Rightarrow> json 200 (JObj c)))"

definition router_get_id :: "env \<Rightarrow> jsstring \<Rightarrow> server \<Rightarrow> response \<times> server" where
  "router_get_id e params_id = catch (router_get_id_try e params_id)"

text \<open>
  \<^verbatim>\<open>router.post("/")\<close>. Destructuring \<^verbatim>\<open>req.body\<close> throws a \<^verbatim>\<open>TypeError\<close> when it
  is \<^verbatim>\<open>undefined\<close> or \<^verbatim>\<open>null\<close>.
\<close>

definition router_post_try :: "env \<Rightarrow> jsval option \<Rightarrow> response io" where
  "router_post_try e reqBody =
     (case reqBody of
        None \<Rightarrow>
          throw (Error (js ''Cannot destructure property firstName of req.body as it is undefined.''))
      | Some b \<Rightarrow>
          if b = JNull
          then throw (Error (js ''Cannot destructure property firstName of req.body as it is null.''))
          else
            (let firstName = getProp b (js ''firstName'');
                 lastName = getProp b (js ''lastName'');
                 email = getProp b (js ''email'');
                 favoriteColor = getProp b (js ''favoriteColor'');
                 birthday = getProp b (js ''birthday'')
             in if \<not> truthy firstName \<or> \<not> truthy lastName \<or> \<not> truthy email
                   \<or> \<not> truthy favoriteColor \<or> \<not> truthy birthday
                then json 400 (errorJson (js ''All fields are required''))
                else
                  bnd (getNextSequence (fault e 0) (js ''contacts''))
                    (\<lambda>id'.
                      let contactData = objectLiteral
                            [(js ''id'', id'), (js ''firstName'', firstName),
                             (js ''lastName'', lastName), (js ''email'', email),
                             (js ''favoriteColor'', favoriteColor), (js ''birthday'', birthday)]
                      in bnd (getDb (driver (fault e 1) (insertOne (objectId e) contactData)))
                           (\<lambda>_. json 201 (JObj (objectLiteral [(js ''id'', id')]))))))"

definition router_post :: "env \<Rightarrow> jsval option \<Rightarrow> server \<Rightarrow> response \<times> server" where
  "router_post e reqBody = catch (router_post_try e reqBody)"

text \<open>\<^verbatim>\<open>router.put("/:id")\<close>\<close>

definition router_put_id_try :: "env \<Rightarrow> jsstring \<Rightarrow> jsval option \<Rightarrow> response io" where
  "router_put_id_try e params_id reqBody =
     (let idNum = parseInt params_id in
      if isNaN idNum then json 400 (errorJson (js ''Invalid ID''))
      else
        bnd (getDb (driver (fault e 0) (findOne idNum)))
          (\<lambda>existingContact.
            if existingContact = None then json 404 (errorJson (js ''Contact not found''))
            else
              (let updateData = spread reqBody;
                   updateData = AList.delete (js ''id'') updateData;
                   updateData = AList.delete (js ''_id'') updateData
               in bnd (getDb (driver (fault e 1) (updateOne idNum updateData)))
                    (\<lambda>_. bnd (getDb (driver (fault e 2) (findOne idNum)))
                      (\<lambda>updatedContact.
                        json 200 (case updatedContact of None \<Rightarrow> JNull | Some c \<Rightarrow> JObj c))))))"

definition router_put_id :: "env \<Rightarrow> jsstring \<Rightarrow> jsval option \<Rightarrow> server \<Rightarrow> response \<times> server" where
  "router_put_id e params_id reqBody = catch (router_put_id_try e params_id reqBody)"

text \<open>\<^verbatim>\<open>router.delete("/:id")\<close>\<close>

definition router_delete_id_try :: "env \<Rightarrow> jsstring \<Rightarrow> response io" where
  "router_delete_id_try e params_id =
     (let idNum = parseInt params_id in
      if isNaN idNum then json 400 (errorJson (js ''Invalid ID''))
      else
        bnd (getDb (driver (fault e 0) (deleteOne idNum)))
          (\<lambda>deletedCount.
            if deletedCount = 0 then json 404 (errorJson (js ''Contact not found''))
            else json 200 (JObj [(js ''message'', JStr (js ''Contact deleted successfully''))])))"

definition router_delete_id :: "env \<Rightarrow> jsstring \<Rightarrow> server \<Rightarrow> response \<times> server" where
  "router_delete_id e params_id = catch (router_delete_id_try e params_id)"

subsection \<open>Requests\<close>

datatype request =
    GetAll
  | GetOne jsstring
  | Post "jsval option"
  | Put jsstring "jsval option"
  | Delete jsstring


fun handle :: "env \<Rightarrow> request \<Rightarrow> server \<Rightarrow> response \<times> server" where
  "handle e GetAll = router_get e"
| "handle e (GetOne i) = router_get_id e i"
| "handle e (Post reqBody) = router_post e reqBody"
| "handle e (Put i reqBody) = router_put_id e i reqBody"
| "handle e (Delete i) = router_delete_id e i"

text \<open>Requests served one after the other, each in its environment.\<close>

fun serve :: "(env \<times> request) list \<Rightarrow> server \<Rightarrow> response list \<times> server" where
  "serve [] s = ([], s)"
| "serve ((e, r) # rs) s =
     (case handle e r s of (resp, s') \<Rightarrow>
        (case serve rs s' of (resps, s'') \<Rightarrow> (resp # resps, s'')))"

section \<open>Consistent databases\<close>

text \<open>
  The value of the sequence counter of the collection \<^verbatim>\<open>contacts\<close> (0 while the
  counter document does not exist).
\<close>

definition seqValue :: "database \<Rightarrow> rat" where
  "seqValue d =
     (case find (matchesName (js ''contacts'')) (counters d) of
        None \<Rightarrow> 0
      | Some c \<Rightarrow> (case map_of c (js ''seq'') of Some (JNum q) \<Rightarrow> q | _ \<Rightarrow> 0))"

text \<open>
  What the routes keep true of the database, starting from the empty one: the counter,
  once it exists, holds an integer; every contact has a number as its \<^verbatim>\<open>id\<close>, at
  most the counter; no two contacts have the same \<^verbatim>\<open>id\<close>.
\<close>

definition counterOk :: "database \<Rightarrow> bool" where
  "counterOk d =
     (case find (matchesName (js ''contacts'')) (counters d) of
        None \<Rightarrow> True
      | Some c \<Rightarrow> (case map_of c (js ''seq'') of Some (JNum q) \<Rightarrow> of_int \<lfloor>q\<rfloor> = q | _ \<Rightarrow> False))"

definition idBounded :: "rat \<Rightarrow> doc \<Rightarrow> bool" where
  "idBounded m c = (case map_of c (js ''id'') of Some (JNum q) \<Rightarrow> q \<le> m | _ \<Rightarrow> False)"

definition consistent :: "database \<Rightarrow> bool" where
  "consistent d \<longleftrightarrow>
     counterOk d \<and> list_all (idBounded (seqValue d)) (contacts d) \<and>
     distinct (map (\<lambda>c. map_of c (js ''id'')) (contacts d))"

definition emptyDb :: database where
  "emptyDb = \<lparr>contacts = [], counters = []\<rparr>"

text \<open>The ids that the responses with status 201 carry, in the order of the responses.\<close>

definition createdIds :: "response list \<Rightarrow> jsval option list" where
  "createdIds rs = map (\<lambda>r. getProp (body r) (js ''id'')) (filter (\<lambda>r. status r = 201) rs)"


text \<open>The generated \<^verbatim>\<open>ObjectId\<close> is not yet in the collection.\<close>

definition freshObjectId :: "env \<Rightarrow> database \<Rightarrow> bool" where
  "freshObjectId e d \<longleftrightarrow>
     list_all (\<lambda>c. map_of c (js ''_id'') \<noteq> Some (JObjectId (objectId e))) (contacts d)"

definition requiredFields :: "jsstring list" where
  "requiredFields =
     [js ''firstName'', js ''lastName'', js ''email'', js ''favoriteColor'', js ''birthday'']"


subsection \<open>Readings of the specification\<close>

text \<open>
  A numeric string, as the one an integer id is written with: an optional sign and
  decimal digits up to the end.
\<close>

definition isDecimalDigit :: "16 word \<Rightarrow> bool" where
  "isDecimalDigit c \<longleftrightarrow> 0x30 \<le> c \<and> c \<le> 0x39"

definition unsigned :: "jsstring \<Rightarrow> jsstring" where
  "unsigned s = (if take 1 s = js ''+'' \<or> take 1 s = js ''-'' then drop 1 s else s)"

definition numericString :: "jsstring \<Rightarrow> bool" where
  "numericString s \<longleftrightarrow> unsigned s \<noteq> [] \<and> list_all isDecimalDigit (unsigned s)"


text \<open>
  The strings that \<^verbatim>\<open>parseInt\<close> reads as a number: after leading white space and an
  optional sign comes \<^verbatim>\<open>0x\<close> or \<^verbatim>\<open>0X\<close> and a hexadecimal digit, or else a decimal
  digit.
\<close>

definition isHexDigit :: "16 word \<Rightarrow> bool" where
  "isHexDigit c \<longleftrightarrow>
     (0x30 \<le> c \<and> c \<le> 0x39) \<or> (0x61 \<le> c \<and> c \<le> 0x66) \<or> (0x41 \<le> c \<and> c \<le> 0x46)"

definition readsAsInteger :: "jsstring \<Rightarrow> bool" where
  "readsAsInteger s =
     (let t = unsigned (dropWhile isStrWhiteSpaceChar s) in
      if take 2 t = js ''0x'' \<or> take 2 t = js ''0X''
      then (case drop 2 t of [] \<Rightarrow> False | c # u \<Rightarrow> isHexDigit c)
      else (case t of [] \<Rightarrow> False | c # u \<Rightarrow> isDecimalDigit c))"

subsection \<open>A database and requests to run the routes on\<close>

definition ada :: doc where
  "ada = [(js ''_id'', JObjectId 1), (js ''id'', JNum 12), (js ''firstName'', JStr (js ''Ada'')),
          (js ''lastName'', JStr (js ''Lovelace'')), (js ''email'', JStr (js ''ada@example.org'')),
          (js ''favoriteColor'', JStr (js ''green'')), (js ''birthday'', JStr (js ''1815-12-10''))]"

definition db12 :: database where
  "db12 = \<lparr>contacts = [ada],
           counters = [[(js ''_id'', JStr (js ''contacts'')), (js ''seq'', JNum 12)]]\<rparr>"

definition quiet :: env where
  "quiet = \<lparr>fault = (\<lambda>i. None), objectId = 2\<rparr>"

definition offline :: env where
  "offline = \<lparr>fault = (\<lambda>i. Some (js ''connection closed'')), objectId = 2\<rparr>"

definition grace :: jsval where
  "grace = JObj [(js ''firstName'', JStr (js ''Grace'')), (js ''lastName'', JStr (js ''Hopper'')),
                 (js ''email'', JStr (js ''grace@example.org'')),
                 (js ''favoriteColor'', JStr (js ''blue'')), (js ''birthday'', JStr (js ''1906-12-09''))]"

definition nameless :: jsval where
  "nameless = JObj [(js ''firstName'', JStr []), (js ''lastName'', JStr (js ''Hopper'')),
                    (js ''email'', JStr (js ''grace@example.org'')),
                    (js ''favoriteColor'', JStr (js ''blue'')), (js ''birthday'', JStr (js ''1906-12-09''))]"

definition newEmail :: jsval where
  "newEmail = JObj [(js ''id'', JNum 99), (js ''_id'', JObjectId 7),
                    (js ''email'', JStr (js ''countess@example.org'')),
                    (js ''nickname'', JStr (js ''AAL''))]"

subsection \<open>Notions for the proofs\<close>

text \<open>The contact that a successful POST stores, for the body \<open>b\<close> and the id \<open>q\<close>.\<close>

definition newContact :: "env \<Rightarrow> jsval \<Rightarrow> rat \<Rightarrow> doc" where
  "newContact e b q = (js ''_id'', JObjectId (objectId e)) # objectLiteral
      [(js ''id'', Some (JNum q)), (js ''firstName'', getProp b (js ''firstName'')),
       (js ''lastName'', getProp b (js ''lastName'')), (js ''email'', getProp b (js ''email'')),
       (js ''favoriteColor'', getProp b (js ''favoriteColor'')),
       (js ''birthday'', getProp b (js ''birthday''))]"

text \<open>The \<^verbatim>\<open>id\<close> fields of the documents of a collection, and an id that is a number at most \<open>m\<close>.\<close>

definition idsOf :: "doc list \<Rightarrow> jsval option list" where
  "idsOf cs = map (\<lambda>c. map_of c (js ''id'')) cs"

definition boundedId :: "rat \<Rightarrow> jsval option \<Rightarrow> bool" where
  "boundedId m i = (case i of Some (JNum q) \<Rightarrow> q \<le> m | _ \<Rightarrow> False)"

text \<open>
  The update document of the PUT route (the body without \<^verbatim>\<open>id\<close> and \<^verbatim>\<open>_id\<close>), and
  the contact \<open>c\<close> after \<^verbatim>\<open>$set\<close> with it.
\<close>

definition updateDataOf :: "jsval option \<Rightarrow> doc" where
  "updateDataOf reqBody = AList.delete (js ''_id'') (AList.delete (js ''id'') (spread reqBody))"

definition updated :: "jsval option \<Rightarrow> doc \<Rightarrow> doc" where
  "updated b c = fold (\<lambda>(k, v). AList.update k v) (updateDataOf b) c"

text \<open>
  What one request can do to a consistent database: it stays consistent, the counter does
  not go down, and the only id that can be new is the counter plus one.
\<close>

definition evolves :: "database \<Rightarrow> database \<Rightarrow> bool" where
  "evolves d d' \<longleftrightarrow>
     consistent d' \<and> seqValue d \<le> seqValue d' \<and>
     set (idsOf (contacts d')) \<subseteq> insert (Some (JNum (seqValue d + 1))) (set (idsOf (contacts d)))"



section \<open>Lists\<close>

lemma find_updateFirst:
  "find P xs = Some x \<Longrightarrow> P y \<Longrightarrow> find P (updateFirst P y xs) = Some y"
  by (induction xs) (auto split: if_splits)

lemma find_None_updateFirst:
  "find P xs = None \<Longrightarrow> updateFirst P y xs = xs"
  by (induction xs) (auto split: if_splits)

lemma find_None_deleteFirst:
  "find P xs = None \<Longrightarrow> deleteFirst P xs = xs"
  by (induction xs) (auto split: if_splits)

lemma set_updateFirst: "set (updateFirst P y xs) \<subseteq> insert y (set xs)"
  by (induction xs) auto

lemma set_deleteFirst: "set (deleteFirst P xs) \<subseteq> set xs"
  by (induction xs) auto

lemma find_Some_mem: "find P xs = Some x \<Longrightarrow> x \<in> set xs \<and> P x"
  by (induction xs) (auto split: if_splits)

lemma find_None_iff2: "find P xs = None \<longleftrightarrow> (\<forall>x \<in> set xs. \<not> P x)"
  by (induction xs) auto

lemma map_updateFirst:
  "find P xs = Some x \<Longrightarrow> f y = f x \<Longrightarrow> map f (updateFirst P y xs) = map f xs"
  by (induction xs) (auto split: if_splits)


lemma distinct_map_deleteFirst:
  "distinct (map f xs) \<Longrightarrow> distinct (map f (deleteFirst P xs))"
proof (induction xs)
  case Nil
  then show ?case by simp
next
  case (Cons a xs)
  from Cons.prems have a: "f a \<notin> f ` set xs" and d: "distinct (map f xs)"
    by simp_all
  have "f ` set (deleteFirst P xs) \<subseteq> f ` set xs"
    using set_deleteFirst [of P xs] by blast
  with a have "f a \<notin> f ` set (deleteFirst P xs)" by blast
  with d Cons.IH show ?case by simp
qed

lemma find_unique:
  "distinct (map f xs) \<Longrightarrow> c \<in> set xs \<Longrightarrow> P c \<Longrightarrow> (\<forall>x \<in> set xs. P x \<longrightarrow> f x = f c) \<Longrightarrow>
   find P xs = Some c"
proof (induction xs)
  case Nil
  then show ?case by simp
next
  case (Cons a xs)
  from Cons.prems(1) have a: "f a \<notin> f ` set xs" and d: "distinct (map f xs)"
    by simp_all
  show ?case
  proof (cases "a = c")
    case True
    with Cons.prems(3) show ?thesis by simp
  next
    case False
    with Cons.prems(2) have c: "c \<in> set xs" by simp
    have na: "\<not> P a"
    proof
      assume "P a"
      with Cons.prems(4) have "f a = f c" by simp
      with c a show False by blast
    qed
    from Cons.prems(4) have "\<forall>x \<in> set xs. P x \<longrightarrow> f x = f c" by simp
    with Cons.IH d c Cons.prems(3) have "find P xs = Some c" by blast
    with na show ?thesis by simp
  qed
qed

lemma deleteFirst_unique:
  "distinct (map f xs) \<Longrightarrow> find P xs = Some c \<Longrightarrow> (\<forall>x \<in> set xs. P x \<longrightarrow> f x = f c) \<Longrightarrow>
   find P (deleteFirst P xs) = None"
proof (induction xs)
  case Nil
  then show ?case by simp
next
  case (Cons a xs)
  from Cons.prems(1) have a: "f a \<notin> f ` set xs" and d: "distinct (map f xs)"
    by simp_all
  show ?case
  proof (cases "P a")
    case True
    with Cons.prems(2) have ac: "a = c" by simp
    have "\<forall>x \<in> set xs. \<not> P x"
    proof
      fix x assume x: "x \<in> set xs"
      show "\<not> P x"
      proof
        assume "P x"
        with x Cons.prems(3) have "f x = f c" by simp
        with x a ac show False by (metis imageI)
      qed
    qed
    then have "find P xs = None" by (simp add: find_None_iff2)
    with True show ?thesis by simp
  next
    case False
    with Cons.prems(2) have "find P xs = Some c" by simp
    moreover from Cons.prems(3) have "\<forall>x \<in> set xs. P x \<longrightarrow> f x = f c" by simp
    ultimately have "find P (deleteFirst P xs) = None"
      using Cons.IH d by blast
    with False show ?thesis by simp
  qed
qed

section \<open>What each route does to the database\<close>

lemmas io_defs = bnd_def ret_def throw_def getDb_def driver_def json_def catch_def

lemma getDb_not_connected: "getDb op None = (Inl (Error (js ''Database not connected'')), None)"
  by (simp add: getDb_def)

lemma driver_fault: "getDb (driver (Some msg) op) (Some d) = (Inl (Error msg), Some d)"
  by (simp add: getDb_def driver_def)

lemma find_append2:
  "find P (xs @ ys) = (case find P xs of None \<Rightarrow> find P ys | Some x \<Rightarrow> Some x)"
  by (induction xs) auto

lemma counterOk_integer: "counterOk d \<Longrightarrow> of_int \<lfloor>seqValue d\<rfloor> = seqValue d"
  by (auto simp: counterOk_def seqValue_def split: option.splits jsval.splits)

lemma findOneAndUpdate_contacts:
  assumes "counterOk d"
  shows "\<exists>cnt d1. findOneAndUpdate (js ''contacts'') d = (Inr cnt, d1)
           \<and> map_of cnt (js ''seq'') = Some (JNum (seqValue d + 1))
           \<and> contacts d1 = contacts d \<and> seqValue d1 = seqValue d + 1 \<and> counterOk d1"
proof (cases "find (matchesName (js ''contacts'')) (counters d)")
  case None
  let ?c = "[(js ''_id'', JStr (js ''contacts'')), (js ''seq'', JNum 1)]"
  have m: "matchesName (js ''contacts'') ?c" by (simp add: matchesName_def)
  have f: "find (matchesName (js ''contacts'')) (counters d @ [?c]) = Some ?c"
    using None m by (simp add: find_append2)
  show ?thesis
    using None f
    by (simp add: findOneAndUpdate_def seqValue_def counterOk_def Let_def)
next
  case (Some c)
  with assms obtain q where q: "map_of c (js ''seq'') = Some (JNum q)" and qi: "of_int \<lfloor>q\<rfloor> = q"
    by (auto simp: counterOk_def split: option.splits jsval.splits)
  let ?c = "AList.update (js ''seq'') (JNum (q + 1)) c"
  from Some have "matchesName (js ''contacts'') c" by (simp add: find_Some_mem)
  then have m: "matchesName (js ''contacts'') ?c"
    by (simp add: matchesName_def update_conv')
  have f: "find (matchesName (js ''contacts''))
             (updateFirst (matchesName (js ''contacts'')) ?c (counters d)) = Some ?c"
    using Some m by (rule find_updateFirst)
  have s: "map_of ?c (js ''seq'') = Some (JNum (q + 1))" by (simp add: update_conv')
  have qi': "of_int \<lfloor>q + 1\<rfloor> = q + 1" using qi by (metis floor_add_int of_int_add of_int_1 floor_one add.commute floor_of_int)
  show ?thesis
    using Some q f s qi'
    by (simp add: findOneAndUpdate_def seqValue_def counterOk_def Let_def)
qed

lemma newContact_id: "map_of (newContact e b q) (js ''id'') = Some (JNum q)"
  by (simp add: newContact_def objectLiteral_def map_filter_simps)

lemma post_missing:
  assumes "b \<noteq> JNull" "\<not> list_all (\<lambda>k. truthy (getProp b k)) requiredFields"
  shows "router_post e (Some b) s =
           (\<lparr>status = 400, body = errorJson (js ''All fields are required'')\<rparr>, s)"
  using assms
  by (auto simp: router_post_def router_post_try_def io_defs requiredFields_def Let_def)

lemma post_outcome:
  assumes ok: "counterOk d"
    and b: "b \<noteq> JNull" "list_all (\<lambda>k. truthy (getProp b k)) requiredFields"
  shows "router_post e (Some b) (Some d) =
     (case fault e 0 of
        Some msg \<Rightarrow> (\<lparr>status = 500, body = errorJson msg\<rparr>, Some d)
      | None \<Rightarrow>
         (let d1 = snd (findOneAndUpdate (js ''contacts'') d) in
          case fault e 1 of
            Some msg \<Rightarrow> (\<lparr>status = 500, body = errorJson msg\<rparr>, Some d1)
          | None \<Rightarrow>
             if freshObjectId e d
             then (\<lparr>status = 201, body = JObj [(js ''id'', JNum (seqValue d + 1))]\<rparr>,
                   Some (d1\<lparr>contacts := contacts d @ [newContact e b (seqValue d + 1)]\<rparr>))
             else (\<lparr>status = 500, body = errorJson (js ''E11000 duplicate key error'')\<rparr>, Some d1)))"
proof -
  from findOneAndUpdate_contacts [OF ok] obtain cnt d1 where
    f: "findOneAndUpdate (js ''contacts'') d = (Inr cnt, d1)" and
    s: "map_of cnt (js ''seq'') = Some (JNum (seqValue d + 1))" and
    c: "contacts d1 = contacts d" by blast
  have fr: "freshObjectId e d \<longleftrightarrow>
      \<not> (\<exists>c' \<in> set (contacts d). map_of c' (js ''_id'') = Some (JObjectId (objectId e)))"
    by (auto simp: freshObjectId_def list_all_iff)
  show ?thesis
    using b f s c fr
    by (simp add: router_post_def router_post_try_def io_defs requiredFields_def Let_def
        getNextSequence_def insertOne_def newContact_def objectLiteral_def map_filter_simps
        split: option.splits)
qed

lemma consistent_alt:
  "consistent d \<longleftrightarrow>
     counterOk d \<and> (\<forall>i \<in> set (idsOf (contacts d)). boundedId (seqValue d) i) \<and>
     distinct (idsOf (contacts d))"
  by (auto simp: consistent_def idsOf_def boundedId_def idBounded_def list_all_iff)

lemma seqValue_contacts [simp]: "seqValue (d\<lparr>contacts := cs\<rparr>) = seqValue d"
  by (simp add: seqValue_def)

lemma counterOk_contacts [simp]: "counterOk (d\<lparr>contacts := cs\<rparr>) = counterOk d"
  by (simp add: counterOk_def)

lemma boundedId_mono: "boundedId m i \<Longrightarrow> m \<le> m' \<Longrightarrow> boundedId m' i"
  by (auto simp: boundedId_def split: option.splits jsval.splits)

lemma fold_update_other:
  "k \<notin> fst ` set upd \<Longrightarrow> map_of (fold (\<lambda>(k, v). AList.update k v) upd c) k = map_of c k"
proof (induction upd arbitrary: c)
  case Nil
  then show ?case by simp
next
  case (Cons p upd)
  obtain k0 v0 where p: "p = (k0, v0)" by (cases p)
  from Cons.prems p have "k \<noteq> k0" "k \<notin> fst ` set upd" by auto
  with Cons.IH [of "AList.update k0 v0 c"] p show ?case by (simp add: update_conv')
qed

lemma fold_update_lookup:
  "distinct (map fst upd) \<Longrightarrow>
   map_of (fold (\<lambda>(k, v). AList.update k v) upd c) k =
     (case map_of upd k of Some v \<Rightarrow> Some v | None \<Rightarrow> map_of c k)"
proof (induction upd arbitrary: c)
  case Nil
  then show ?case by simp
next
  case (Cons p upd)
  obtain k0 v0 where p: "p = (k0, v0)" by (cases p)
  from Cons.prems p have d: "distinct (map fst upd)" and n: "k0 \<notin> fst ` set upd" by auto
  from n have m: "map_of upd k0 = None" by (simp add: map_of_eq_None_iff)
  have "map_of (fold (\<lambda>(k, v). AList.update k v) (p # upd) c) k =
        map_of (fold (\<lambda>(k, v). AList.update k v) upd (AList.update k0 v0 c)) k"
    using p by simp
  also have "\<dots> = (case map_of upd k of Some v \<Rightarrow> Some v | None \<Rightarrow> map_of (AList.update k0 v0 c) k)"
    using Cons.IH [OF d] .
  also have "\<dots> = (case map_of (p # upd) k of Some v \<Rightarrow> Some v | None \<Rightarrow> map_of c k)"
    using p m by (auto simp: update_conv' split: option.splits)
  finally show ?case .
qed

lemma updateDataOf_keys:
  "js ''id'' \<notin> fst ` set (updateDataOf b)" "js ''_id'' \<notin> fst ` set (updateDataOf b)"
  unfolding updateDataOf_def
  by (auto simp: AList.delete_eq)

lemma applySet_updateDataOf:
  "applySet (updateDataOf b) c = Inr (fold (\<lambda>(k, v). AList.update k v) (updateDataOf b) c)"
proof -
  have "map_of (updateDataOf b) (js ''_id'') = None"
    using updateDataOf_keys(2) [of b] by (simp add: map_of_eq_None_iff)
  then show ?thesis by (simp add: applySet_def)
qed

lemma updated_id: "map_of (updated b c) (js ''id'') = map_of c (js ''id'')"
  unfolding updated_def using updateDataOf_keys(1) by (rule fold_update_other)

lemma updated_oid: "map_of (updated b c) (js ''_id'') = map_of c (js ''_id'')"
  unfolding updated_def using updateDataOf_keys(2) by (rule fold_update_other)

lemma matchesId_cong:
  "map_of c' (js ''id'') = map_of c (js ''id'') \<Longrightarrow> matchesId q c' = matchesId q c"
  by (cases q) simp_all

lemma put_outcome:
  "router_put_id e i b (Some d) =
     (case parseInt i of
        NaN \<Rightarrow> (\<lparr>status = 400, body = errorJson (js ''Invalid ID'')\<rparr>, Some d)
      | Finite q \<Rightarrow>
         (case fault e 0 of
            Some msg \<Rightarrow> (\<lparr>status = 500, body = errorJson msg\<rparr>, Some d)
          | None \<Rightarrow>
             (case find (matchesId (Finite q)) (contacts d) of
                None \<Rightarrow> (\<lparr>status = 404, body = errorJson (js ''Contact not found'')\<rparr>, Some d)
              | Some c \<Rightarrow>
                 (case fault e 1 of
                    Some msg \<Rightarrow> (\<lparr>status = 500, body = errorJson msg\<rparr>, Some d)
                  | None \<Rightarrow>
                     (let d' = d\<lparr>contacts := updateFirst (matchesId (Finite q)) (updated b c) (contacts d)\<rparr> in
                      case fault e 2 of
                        Some msg \<Rightarrow> (\<lparr>status = 500, body = errorJson msg\<rparr>, Some d')
                      | None \<Rightarrow> (\<lparr>status = 200, body = JObj (updated b c)\<rparr>, Some d'))))))"
proof (cases "parseInt i")
  case NaN
  then show ?thesis
    by (simp add: router_put_id_def router_put_id_try_def io_defs)
next
  case (Finite q)
  show ?thesis
  proof (cases "fault e 0")
    case f0: (Some msg)
    with Finite show ?thesis
      by (simp add: router_put_id_def router_put_id_try_def io_defs Let_def)
  next
    case f0: None
    show ?thesis
    proof (cases "find (matchesId (Finite q)) (contacts d)")
      case None
      with Finite f0 show ?thesis
        by (simp add: router_put_id_def router_put_id_try_def io_defs findOne_def Let_def)
    next
      case (Some c)
      have "matchesId (Finite q) c" using find_Some_mem [OF Some] ..
      then have "matchesId (Finite q) (updated b c)"
        by (simp only: matchesId_cong [OF updated_id])
      with Some have f: "find (matchesId (Finite q))
          (updateFirst (matchesId (Finite q)) (updated b c) (contacts d)) = Some (updated b c)"
        by (rule find_updateFirst)
      have a: "applySet (AList.delete (js ''_id'') (AList.delete (js ''id'') (spread b))) c
                 = Inr (updated b c)"
        using applySet_updateDataOf [of b c] by (simp only: updated_def updateDataOf_def)
      show ?thesis
      proof (cases "fault e 1")
        case f1: (Some msg)
        with Finite f0 Some show ?thesis
          by (simp add: router_put_id_def router_put_id_try_def io_defs findOne_def Let_def)
      next
        case f1: None
        show ?thesis
        proof (cases "fault e 2")
          case f2: (Some msg)
          with Finite f0 f1 Some a show ?thesis
            by (simp add: router_put_id_def router_put_id_try_def io_defs findOne_def
                updateOne_def Let_def)
        next
          case f2: None
          with Finite f0 f1 Some a f show ?thesis
            by (simp add: router_put_id_def router_put_id_try_def io_defs findOne_def
                updateOne_def Let_def)
        qed
      qed
    qed
  qed
qed

lemma get_outcome:
  "router_get e (Some d) =
     (case fault e 0 of
        Some msg \<Rightarrow> (\<lparr>status = 500, body = errorJson msg\<rparr>, Some d)
      | None \<Rightarrow> (\<lparr>status = 200, body = JArr (map JObj (contacts d))\<rparr>, Some d))"
  by (simp add: router_get_def router_get_try_def io_defs find_toArray_def split: option.splits)

lemma get_id_outcome:
  "router_get_id e i (Some d) =
     (case parseInt i of
        NaN \<Rightarrow> (\<lparr>status = 400, body = errorJson (js ''Invalid ID'')\<rparr>, Some d)
      | Finite q \<Rightarrow>
         (case fault e 0 of
            Some msg \<Rightarrow> (\<lparr>status = 500, body = errorJson msg\<rparr>, Some d)
          | None \<Rightarrow>
             (case find (matchesId (Finite q)) (contacts d) of
                None \<Rightarrow> (\<lparr>status = 404, body = errorJson (js ''Contact not found'')\<rparr>, Some d)
              | Some c \<Rightarrow> (\<lparr>status = 200, body = JObj c\<rparr>, Some d))))"
  by (simp add: router_get_id_def router_get_id_try_def io_defs findOne_def Let_def
      split: option.splits number.splits)

lemma delete_outcome:
  "router_delete_id e i (Some d) =
     (case parseInt i of
        NaN \<Rightarrow> (\<lparr>status = 400, body = errorJson (js ''Invalid ID'')\<rparr>, Some d)
      | Finite q \<Rightarrow>
         (case fault e 0 of
            Some msg \<Rightarrow> (\<lparr>status = 500, body = errorJson msg\<rparr>, Some d)
          | None \<Rightarrow>
             (case find (matchesId (Finite q)) (contacts d) of
                None \<Rightarrow> (\<lparr>status = 404, body = errorJson (js ''Contact not found'')\<rparr>, Some d)
              | Some c \<Rightarrow>
                 (\<lparr>status = 200,
                   body = JObj [(js ''message'', JStr (js ''Contact deleted successfully''))]\<rparr>,
                  Some (d\<lparr>contacts := deleteFirst (matchesId (Finite q)) (contacts d)\<rparr>)))))"
  by (simp add: router_delete_id_def router_delete_id_try_def io_defs deleteOne_def Let_def
      split: option.splits number.splits)

lemma evolves_refl: "consistent d \<Longrightarrow> evolves d d"
  by (auto simp: evolves_def)

lemma evolves_delete:
  assumes "consistent d"
  shows "evolves d (d\<lparr>contacts := deleteFirst P (contacts d)\<rparr>)"
proof -
  have sub: "set (idsOf (deleteFirst P (contacts d))) \<subseteq> set (idsOf (contacts d))"
    using set_deleteFirst [of P "contacts d"] by (auto simp: idsOf_def)
  have dis: "distinct (idsOf (deleteFirst P (contacts d)))"
    using assms by (simp add: consistent_alt idsOf_def distinct_map_deleteFirst)
  show ?thesis
    using assms sub dis unfolding evolves_def consistent_alt
    by auto
qed

lemma evolves_update:
  assumes "consistent d" "find P (contacts d) = Some c"
    "map_of c' (js ''id'') = map_of c (js ''id'')"
  shows "evolves d (d\<lparr>contacts := updateFirst P c' (contacts d)\<rparr>)"
proof -
  have "idsOf (updateFirst P c' (contacts d)) = idsOf (contacts d)"
    unfolding idsOf_def using assms(2,3) by (rule map_updateFirst)
  then show ?thesis
    using assms(1) unfolding evolves_def consistent_alt by auto
qed

lemma evolves_bump:
  assumes c: "consistent d"
    and d1: "contacts d1 = contacts d" "seqValue d1 = seqValue d + 1" "counterOk d1"
  shows "evolves d d1"
proof -
  have "\<forall>i \<in> set (idsOf (contacts d)). boundedId (seqValue d + 1) i"
    using c boundedId_mono [of "seqValue d" _ "seqValue d + 1"] by (simp add: consistent_alt)
  then show ?thesis
    using c d1 unfolding evolves_def consistent_alt by auto
qed

lemma evolves_insert:
  assumes c: "consistent d"
    and d1: "contacts d1 = contacts d" "seqValue d1 = seqValue d + 1" "counterOk d1"
    and n: "map_of new (js ''id'') = Some (JNum (seqValue d + 1))"
  shows "evolves d (d1\<lparr>contacts := contacts d @ [new]\<rparr>)"
proof -
  have b: "\<forall>i \<in> set (idsOf (contacts d)). boundedId (seqValue d) i"
    and dis: "distinct (idsOf (contacts d))"
    using c by (simp_all add: consistent_alt)
  have "\<not> boundedId (seqValue d) (Some (JNum (seqValue d + 1)))"
    by (simp add: boundedId_def)
  with b have fresh: "Some (JNum (seqValue d + 1)) \<notin> set (idsOf (contacts d))" by blast
  have b': "\<forall>i \<in> set (idsOf (contacts d)). boundedId (seqValue d + 1) i"
    using b boundedId_mono [of "seqValue d" _ "seqValue d + 1"] by simp
  have bn: "boundedId (seqValue d + 1) (Some (JNum (seqValue d + 1)))"
    by (simp add: boundedId_def)
  have il: "idsOf (contacts d @ [new]) = idsOf (contacts d) @ [Some (JNum (seqValue d + 1))]"
    using n by (simp add: idsOf_def)
  show ?thesis
    unfolding evolves_def consistent_alt
    using d1 dis fresh b' bn by (auto simp: il)
qed

lemma post_not_destructurable:
  "reqBody = None \<or> reqBody = Some JNull \<Longrightarrow>
   \<exists>msg. router_post e reqBody s = (\<lparr>status = 500, body = errorJson msg\<rparr>, s)"
  by (auto simp: router_post_def router_post_try_def io_defs)

lemma post_step:
  assumes c: "consistent d" and h: "router_post e reqBody (Some d) = (resp, s')"
  shows "\<exists>d'. s' = Some d' \<and> evolves d d' \<and>
     (status resp = 201 \<longrightarrow>
        body resp = JObj [(js ''id'', JNum (seqValue d + 1))] \<and> seqValue d' = seqValue d + 1)"
proof (cases "reqBody = None \<or> reqBody = Some JNull")
  case True
  from post_not_destructurable [OF True, of e "Some d"] h c show ?thesis
    by (auto simp: evolves_refl)
next
  case False
  then obtain b where b: "reqBody = Some b" "b \<noteq> JNull" by auto
  show ?thesis
  proof (cases "list_all (\<lambda>k. truthy (getProp b k)) requiredFields")
    case False
    from post_missing [OF b(2) False, of e "Some d"] h b c show ?thesis
      by (auto simp: evolves_refl)
  next
    case True
    from c have ok: "counterOk d" by (simp add: consistent_def)
    from findOneAndUpdate_contacts [OF ok] obtain cnt d1 where
      f: "findOneAndUpdate (js ''contacts'') d = (Inr cnt, d1)" and
      d1: "contacts d1 = contacts d" "seqValue d1 = seqValue d + 1" "counterOk d1" by blast
    have e1: "evolves d d1" using c d1 by (rule evolves_bump)
    have e2: "evolves d (d1\<lparr>contacts := contacts d @ [newContact e b (seqValue d + 1)]\<rparr>)"
      using c d1 newContact_id by (rule evolves_insert)
    have s2: "seqValue (d1\<lparr>contacts := contacts d @ [newContact e b (seqValue d + 1)]\<rparr>)
               = seqValue d + 1"
      using d1(2) by simp
    from post_outcome [OF ok b(2) True, of e] h b f c e1 e2 s2 show ?thesis
      by (auto simp: evolves_refl Let_def split: option.splits if_splits)
  qed
qed

lemma handle_step:
  assumes c: "consistent d" and h: "handle e r (Some d) = (resp, s')"
  shows "\<exists>d'. s' = Some d' \<and> evolves d d' \<and>
     (status resp = 201 \<longrightarrow>
        body resp = JObj [(js ''id'', JNum (seqValue d + 1))] \<and> seqValue d' = seqValue d + 1)"
proof (cases r)
  case GetAll
  with h c show ?thesis
    by (auto simp: get_outcome evolves_refl split: option.splits)
next
  case (GetOne i)
  with h c show ?thesis
    by (auto simp: get_id_outcome evolves_refl split: option.splits number.splits)
next
  case (Post reqBody)
  with h have "router_post e reqBody (Some d) = (resp, s')" by simp
  with c show ?thesis by (rule post_step)
next
  case (Put i reqBody)
  with h have p: "router_put_id e i reqBody (Some d) = (resp, s')" by simp
  have u: "\<And>q c'. find (matchesId (Finite q)) (contacts d) = Some c' \<Longrightarrow>
     evolves d (d\<lparr>contacts := updateFirst (matchesId (Finite q)) (updated reqBody c') (contacts d)\<rparr>)"
    by (rule evolves_update [OF c _ updated_id])
  from p c u show ?thesis
    by (auto simp: put_outcome evolves_refl Let_def split: option.splits number.splits)
next
  case (Delete i)
  with h have p: "router_delete_id e i (Some d) = (resp, s')" by simp
  from p c evolves_delete [OF c] show ?thesis
    by (auto simp: delete_outcome evolves_refl split: option.splits number.splits)
qed

lemma serve_created:
  "consistent d \<Longrightarrow> serve reqs (Some d) = (resps, s') \<Longrightarrow>
   \<exists>d' ns. s' = Some d' \<and> consistent d' \<and> seqValue d \<le> seqValue d' \<and>
     createdIds resps = map (\<lambda>n. Some (JNum (of_int n))) ns \<and> sorted_wrt (<) ns \<and>
     (\<forall>n \<in> set ns. seqValue d < of_int n \<and> of_int n \<le> seqValue d')"
proof (induction reqs arbitrary: d resps)
  case Nil
  then have "createdIds resps = map (\<lambda>n. Some (JNum (of_int n))) []" "s' = Some d"
    by (auto simp: createdIds_def)
  with Nil.prems(1) show ?case by fastforce
next
  case (Cons a reqs)
  obtain e r where a: "a = (e, r)" by (cases a)
  obtain resp s1 where h: "handle e r (Some d) = (resp, s1)" by (cases "handle e r (Some d)")
  obtain rest s2 where sv: "serve reqs s1 = (rest, s2)" by (cases "serve reqs s1")
  from Cons.prems(2) a h sv have res: "resps = resp # rest" "s' = s2" by auto
  from handle_step [OF Cons.prems(1) h] obtain d1 where
    d1: "s1 = Some d1" "evolves d d1" and
    cr: "status resp = 201 \<longrightarrow>
           body resp = JObj [(js ''id'', JNum (seqValue d + 1))] \<and> seqValue d1 = seqValue d + 1"
    by blast
  from d1(2) have c1: "consistent d1" and m1: "seqValue d \<le> seqValue d1"
    by (simp_all add: evolves_def)
  from Cons.IH [OF c1, of rest] sv d1(1) res(2) obtain d' ns where
    ih: "s2 = Some d'" "consistent d'" "seqValue d1 \<le> seqValue d'"
      "createdIds rest = map (\<lambda>n. Some (JNum (of_int n))) ns" "sorted_wrt (<) ns"
      "\<forall>n \<in> set ns. seqValue d1 < of_int n \<and> of_int n \<le> seqValue d'"
    by blast
  show ?case
  proof (cases "status resp = 201")
    case False
    then have "createdIds resps = map (\<lambda>n. Some (JNum (of_int n))) ns"
      using res ih(4) by (simp add: createdIds_def)
    moreover have "\<forall>n \<in> set ns. seqValue d < of_int n \<and> of_int n \<le> seqValue d'"
      using ih(6) m1 by auto
    moreover have "seqValue d \<le> seqValue d'" using m1 ih(3) by simp
    ultimately show ?thesis using res ih(1,2,5) by blast
  next
    case True
    with cr have b: "body resp = JObj [(js ''id'', JNum (seqValue d + 1))]"
      and sq: "seqValue d1 = seqValue d + 1" by simp_all
    from c1 have "of_int \<lfloor>seqValue d1\<rfloor> = seqValue d1"
      by (simp add: consistent_def counterOk_integer)
    then obtain n0 :: int where n0: "of_int n0 = seqValue d1" ..
    have "createdIds resps = map (\<lambda>n. Some (JNum (of_int n))) (n0 # ns)"
      using True res ih(4) b sq n0 by (simp add: createdIds_def)
    moreover have "sorted_wrt (<) (n0 # ns)"
    proof -
      have "\<forall>n \<in> set ns. n0 < n"
      proof
        fix n assume "n \<in> set ns"
        with ih(6) have "seqValue d1 < of_int n" by simp
        with n0 have "(of_int n0 :: rat) < of_int n" by simp
        then show "n0 < n" by simp
      qed
      with ih(5) show ?thesis by simp
    qed
    moreover have "\<forall>n \<in> set (n0 # ns). seqValue d < of_int n \<and> of_int n \<le> seqValue d'"
      using ih(6) ih(3) n0 sq by auto
    moreover have "seqValue d \<le> seqValue d'" using m1 ih(3) by simp
    ultimately show ?thesis using res ih(1,2) by blast
  qed
qed

lemma serve_absent:
  "consistent d \<Longrightarrow> q \<le> seqValue d \<Longrightarrow> Some (JNum q) \<notin> set (idsOf (contacts d)) \<Longrightarrow>
   serve reqs (Some d) = (resps, s') \<Longrightarrow>
   \<exists>d'. s' = Some d' \<and> consistent d' \<and> Some (JNum q) \<notin> set (idsOf (contacts d'))"
proof (induction reqs arbitrary: d resps)
  case Nil
  then show ?case by auto
next
  case (Cons a reqs)
  obtain e r where a: "a = (e, r)" by (cases a)
  obtain resp s1 where h: "handle e r (Some d) = (resp, s1)" by (cases "handle e r (Some d)")
  obtain rest s2 where sv: "serve reqs s1 = (rest, s2)" by (cases "serve reqs s1")
  from Cons.prems(4) a h sv have res: "s' = s2" by auto
  from handle_step [OF Cons.prems(1) h] obtain d1 where
    d1: "s1 = Some d1" "evolves d d1" by blast
  from d1(2) have c1: "consistent d1" and m1: "seqValue d \<le> seqValue d1"
    and sub: "set (idsOf (contacts d1)) \<subseteq>
                insert (Some (JNum (seqValue d + 1))) (set (idsOf (contacts d)))"
    by (simp_all add: evolves_def)
  from Cons.prems(2) have "q \<noteq> seqValue d + 1" by simp
  with sub Cons.prems(3) have ab: "Some (JNum q) \<notin> set (idsOf (contacts d1))" by auto
  from Cons.prems(2) m1 have q1: "q \<le> seqValue d1" by simp
  from Cons.IH [OF c1 q1 ab] sv d1(1) res show ?case by simp
qed

section \<open>Looking contacts up in a consistent database\<close>

lemma consistent_bounded:
  "consistent d \<Longrightarrow> c \<in> set (contacts d) \<Longrightarrow> boundedId (seqValue d) (map_of c (js ''id''))"
  by (simp add: consistent_alt idsOf_def)

lemma matchesId_bounded:
  "boundedId m (map_of c (js ''id'')) \<Longrightarrow>
   matchesId (Finite q) c \<longleftrightarrow> map_of c (js ''id'') = Some (JNum q)"
  by (auto simp: boundedId_def split: option.splits jsval.splits)

lemma consistent_find_None:
  assumes "consistent d"
  shows "find (matchesId (Finite q)) (contacts d) = None \<longleftrightarrow>
         (\<forall>c \<in> set (contacts d). map_of c (js ''id'') \<noteq> Some (JNum q))"
  using matchesId_bounded [OF consistent_bounded [OF assms]]
  by (simp add: find_None_iff2)

lemma consistent_find_Some:
  assumes c: "consistent d" and m: "c \<in> set (contacts d)"
    and i: "map_of c (js ''id'') = Some (JNum q)"
  shows "find (matchesId (Finite q)) (contacts d) = Some c"
proof (rule find_unique [where f = "\<lambda>c. map_of c (js ''id'')"])
  show "distinct (map (\<lambda>c. map_of c (js ''id'')) (contacts d))"
    using c by (simp add: consistent_def)
  show "c \<in> set (contacts d)" by (rule m)
  show "matchesId (Finite q) c"
    using matchesId_bounded [OF consistent_bounded [OF c m]] i by simp
  show "\<forall>x \<in> set (contacts d). matchesId (Finite q) x \<longrightarrow> map_of x (js ''id'') = map_of c (js ''id'')"
    using matchesId_bounded [OF consistent_bounded [OF c]] i by simp
qed

lemma absent_iff:
  "Some (JNum q) \<notin> set (idsOf cs) \<longleftrightarrow> (\<forall>x \<in> set cs. map_of x (js ''id'') \<noteq> Some (JNum q))"
proof -
  have "set (idsOf cs) = (\<lambda>c. map_of c (js ''id'')) ` set cs" by (simp add: idsOf_def)
  then show ?thesis by (metis (mono_tags, lifting) image_iff)
qed

lemma delete_succeeds:
  assumes h: "router_delete_id e i (Some d) = (r, s')" and st: "status r = 200"
  shows "\<exists>q c. parseInt i = Finite q \<and> find (matchesId (Finite q)) (contacts d) = Some c \<and>
           s' = Some (d\<lparr>contacts := deleteFirst (matchesId (Finite q)) (contacts d)\<rparr>)"
proof -
  have st': "status (fst (router_delete_id e i (Some d))) = 200" using h st by simp
  have sn: "s' = snd (router_delete_id e i (Some d))" using h by simp
  show ?thesis
  proof (cases "parseInt i")
    case NaN
    with st' show ?thesis by (simp add: delete_outcome)
  next
    case (Finite q)
    show ?thesis
    proof (cases "fault e 0")
      case (Some msg)
      with st' Finite show ?thesis by (simp add: delete_outcome)
    next
      case None
      show ?thesis
      proof (cases "find (matchesId (Finite q)) (contacts d)")
        case n: None
        with st' Finite None show ?thesis by (simp add: delete_outcome)
      next
        case (Some c)
        with sn Finite None show ?thesis by (simp add: delete_outcome)
      qed
    qed
  qed
qed

section \<open>parseInt reads back decimal strings\<close>

lemma unat_digitChar: "d < 10 \<Longrightarrow> unat (digitChar d) = 48 + d"
  unfolding digitChar_def unat_of_nat by simp

lemma digitValue_digitChar: "d < 10 \<Longrightarrow> digitValue (digitChar d) = d"
  by (simp add: digitValue_def word_le_nat_alt unat_digitChar)






lemma mathInt_snoc: "mathInt R (Z @ [c]) = mathInt R Z * R + digitValue c"
  by (simp add: mathInt_def)

lemma mathInt_digits: "mathInt 10 (digits n) = n"
proof (induction n rule: digits.induct)
  case (1 n)
  show ?case
  proof (cases "n < 10")
    case True
    then show ?thesis by (simp add: digits.simps [of n] mathInt_def digitValue_digitChar)
  next
    case False
    have "mathInt 10 (digits n) = mathInt 10 (digits (n div 10)) * 10 + digitValue (digitChar (n mod 10))"
      using False by (simp add: digits.simps [of n] mathInt_snoc)
    also have "\<dots> = (n div 10) * 10 + n mod 10"
      using "1.IH" [OF False] by (simp add: digitValue_digitChar)
    finally show ?thesis by simp
  qed
qed

lemma inj_digits: "inj digits"
  by (rule inj_on_inverseI [where g = "mathInt 10"]) (rule mathInt_digits)














section \<open>The responses a route can send\<close>












lemma falsy_cases:
  "v = JStr [] \<or> v = JNum 0 \<or> v = JBool False \<or> v = JNull \<Longrightarrow> \<not> truthy (Some v)"
  by auto

section \<open>Updating a contact\<close>

lemma updateFirst_as_map:
  "distinct (map f xs) \<Longrightarrow> find P xs = Some c \<Longrightarrow>
   updateFirst P y xs = map (\<lambda>x. if x = c then y else x) xs"
proof (induction xs)
  case Nil
  then show ?case by simp
next
  case (Cons a xs)
  from Cons.prems(1) have a: "f a \<notin> f ` set xs" and d: "distinct (map f xs)" by simp_all
  show ?case
  proof (cases "P a")
    case True
    with Cons.prems(2) have ac: "a = c" by simp
    have "c \<notin> set xs" using a ac by blast
    then have "map (\<lambda>x. if x = c then y else x) xs = xs" by (auto intro!: map_idI)
    with True ac show ?thesis by simp
  next
    case False
    with Cons.prems(2) have f: "find P xs = Some c" by simp
    then have "P c" using find_Some_mem by fastforce
    with False have "a \<noteq> c" by blast
    with False Cons.IH [OF d f] show ?thesis by simp
  qed
qed

lemma distinct_arrayProps: "distinct (map fst (arrayProps xs))"
proof -
  have "map fst (arrayProps xs) = map digits [0..<length xs]"
    by (simp add: arrayProps_def)
  moreover have "distinct (map digits [0..<length xs])"
    using inj_digits by (simp add: distinct_map inj_on_def inj_def)
  ultimately show ?thesis by simp
qed

lemma distinct_spread: "distinct (map fst (spread b))"
proof (cases b)
  case None
  then show ?thesis by simp
next
  case (Some v)
  then show ?thesis by (cases v) (simp_all add: distinct_arrayProps)
qed

lemma distinct_updateDataOf: "distinct (map fst (updateDataOf b))"
  unfolding updateDataOf_def by (intro distinct_delete distinct_spread)

lemma updateDataOf_lookup:
  "map_of (updateDataOf b) k =
     (if k = js ''id'' \<or> k = js ''_id'' then None else map_of (spread b) k)"
  by (simp add: updateDataOf_def delete_conv')

lemma updated_lookup:
  "map_of (updated b c) k =
     (if k \<in> fst ` set (spread b) \<and> k \<noteq> js ''id'' \<and> k \<noteq> js ''_id''
      then map_of (spread b) k else map_of c k)"
proof -
  have "map_of (updated b c) k =
          (case map_of (updateDataOf b) k of Some v \<Rightarrow> Some v | None \<Rightarrow> map_of c k)"
    unfolding updated_def using distinct_updateDataOf by (rule fold_update_lookup)
  note u = this
  show ?thesis
  proof (cases "k \<in> fst ` set (spread b)")
    case False
    then have "map_of (spread b) k = None" by (simp add: map_of_eq_None_iff)
    with u False show ?thesis by (simp add: updateDataOf_lookup)
  next
    case True
    then obtain v where "map_of (spread b) k = Some v"
      by (metis map_of_eq_None_iff not_Some_eq)
    with u True show ?thesis by (simp add: updateDataOf_lookup)
  qed
qed

lemma put_found:
  assumes c: "consistent d" and m: "c \<in> set (contacts d)"
    and i: "map_of c (js ''id'') = Some (JNum n)" and p: "parseInt params_id = Finite n"
  shows "router_put_id e params_id reqBody (Some d) =
     (case fault e 0 of
        Some msg \<Rightarrow> (\<lparr>status = 500, body = errorJson msg\<rparr>, Some d)
      | None \<Rightarrow>
         (case fault e 1 of
            Some msg \<Rightarrow> (\<lparr>status = 500, body = errorJson msg\<rparr>, Some d)
          | None \<Rightarrow>
             (let d' = d\<lparr>contacts := map (\<lambda>x. if x = c then updated reqBody c else x) (contacts d)\<rparr> in
              case fault e 2 of
                Some msg \<Rightarrow> (\<lparr>status = 500, body = errorJson msg\<rparr>, Some d')
              | None \<Rightarrow> (\<lparr>status = 200, body = JObj (updated reqBody c)\<rparr>, Some d'))))"
proof -
  have f: "find (matchesId (Finite n)) (contacts d) = Some c"
    using c m i by (rule consistent_find_Some)
  have "distinct (map (\<lambda>c. map_of c (js ''id'')) (contacts d))"
    using c by (simp add: consistent_def)
  then have u: "updateFirst (matchesId (Finite n)) (updated reqBody c) (contacts d) =
      map (\<lambda>x. if x = c then updated reqBody c else x) (contacts d)"
    using f by (rule updateFirst_as_map)
  show ?thesis
    unfolding put_outcome p using f u by (simp add: Let_def split: option.splits)
qed

lemma newEmail_spread:
  "spread (Some newEmail) = [(js ''id'', JNum 99), (js ''_id'', JObjectId 7),
      (js ''email'', JStr (js ''countess@example.org'')), (js ''nickname'', JStr (js ''AAL''))]"
  by (simp add: newEmail_def)

section \<open>The ids that are read as numbers\<close>

lemma isRadixDigit_10: "isRadixDigit 10 c = isDecimalDigit c"
  unfolding isRadixDigit_def digitValue_def isDecimalDigit_def word_le_nat_alt
  by (simp split: if_splits) arith

lemma isRadixDigit_16: "isRadixDigit 16 c = isHexDigit c"
  unfolding isRadixDigit_def digitValue_def isHexDigit_def word_le_nat_alt
  by (simp split: if_splits) arith

lemma takeWhile_Nil_case:
  "takeWhile P xs = [] \<longleftrightarrow> (case xs of [] \<Rightarrow> True | c # u \<Rightarrow> \<not> P c)"
  by (cases xs) simp_all

lemma isNaN_parseInt: "isNaN (parseInt s) = (\<not> readsAsInteger s)"
proof -
  let ?t = "unsigned (dropWhile isStrWhiteSpaceChar s)"
  show ?thesis
  proof (cases "take 2 ?t = js ''0x'' \<or> take 2 ?t = js ''0X''")
    case True
    then have "isNaN (parseInt s) = (takeWhile (isRadixDigit 16) (drop 2 ?t) = [])"
      unfolding parseInt_def Let_def unsigned_def by (simp only: if_True) simp
    also have "\<dots> = (\<not> readsAsInteger s)"
      using True unfolding readsAsInteger_def Let_def takeWhile_Nil_case isRadixDigit_16
      by (simp only: if_True split: list.splits) simp
    finally show ?thesis .
  next
    case False
    then have "isNaN (parseInt s) = (takeWhile (isRadixDigit 10) ?t = [])"
      unfolding parseInt_def Let_def unsigned_def by (simp only: if_False) simp
    also have "\<dots> = (\<not> readsAsInteger s)"
      using False unfolding readsAsInteger_def Let_def takeWhile_Nil_case isRadixDigit_10
      by (simp only: if_False split: list.splits) simp
    finally show ?thesis .
  qed
qed








section \<open>Requests that do not reach the database\<close>







section \<open>The routes keep the database consistent\<close>

lemma consistent_emptyDb: "consistent emptyDb"
  by (simp add: consistent_def emptyDb_def counterOk_def)

lemma serve_consistent:
  assumes "consistent d" and "serve reqs (Some d) = (resps, s')"
  shows "\<exists>d'. s' = Some d' \<and> consistent d'"
  using serve_created [OF assms] by blast

section \<open>C1: fetching with an id that is not a number\<close>

text \<open>
  C1. The claim reads: for every request GET /contacts/:id whose id path parameter is a
  non-numeric string, the handler responds with status 400 and body \<open>{error: string}\<close>,
  and no contact is returned. The handler tests \<^verbatim>\<open>isNaN(parseInt(id))\<close>, and
  \<^verbatim>\<open>parseInt\<close> reads the digits a string begins with: the id \<^verbatim>\<open>12abc\<close> is not a
  numeric string, and the request for it is answered with status 200 and the contact
  whose id is 12.
\<close>

theorem get_non_numeric_id_counterexample:
  "\<not> numericString (js ''12abc'') \<and>
   router_get_id quiet (js ''12abc'') (Some db12) = (\<lparr>status = 200, body = JObj ada\<rparr>, Some db12)"
  by code_simp

text \<open>
  C1, as amended: for every request GET /contacts/:id whose id path parameter is not read
  as a number (after leading white space and an optional sign it goes on with
  \<^verbatim>\<open>0x\<close> or \<^verbatim>\<open>0X\<close> and no hexadecimal digit, or with neither that prefix nor a
  decimal digit), \<^verbatim>\<open>parseInt\<close> yields \<^verbatim>\<open>NaN\<close> and the handler responds with status
  400 and the body \<open>{error: "Invalid ID"}\<close>; no contact is returned, the database is not
  consulted (the response is the same when it is not connected or failing) and the
  server is left as it was.
\<close>

theorem get_invalid_id:
  assumes "\<not> readsAsInteger params_id"
  shows "isNaN (parseInt params_id) \<and>
         router_get_id e params_id s =
           (\<lparr>status = 400, body = errorJson (js ''Invalid ID'')\<rparr>, s)"
  using assms
  by (simp add: isNaN_parseInt router_get_id_def router_get_id_try_def io_defs)

theorem get_invalid_id_witness:
  "\<not> readsAsInteger (js ''abc'') \<and> isNaN (parseInt (js ''abc'')) \<and>
   router_get_id offline (js ''abc'') None =
     (\<lparr>status = 400, body = errorJson (js ''Invalid ID'')\<rparr>, None)"
proof -
  have h: "\<not> readsAsInteger (js ''abc'')" by code_simp
  show ?thesis using h get_invalid_id [OF h, of offline None] by simp
qed

section \<open>C2: the ids of created contacts\<close>

text \<open>
  C2. On a consistent database, a POST /contacts answered with status 201 returns as id
  the integer that the counter document \<^verbatim>\<open>contacts\<close> holds after its increment by
  one, which the database does in one step (\<open>findOneAndUpdate\<close>); and in every sequence
  of requests served one after the other, the ids returned with status 201 are integers
  that strictly increase in the order of the requests.
\<close>

theorem created_ids_increase:
  assumes "consistent d"
  shows "(router_post e reqBody (Some d) = (resp, s1) \<and> status resp = 201 \<longrightarrow>
            (\<exists>d1 n. s1 = Some d1 \<and> body resp = JObj [(js ''id'', JNum (of_int n))] \<and>
               of_int n = seqValue d + 1 \<and> seqValue d1 = of_int n)) \<and>
         (serve reqs (Some d) = (resps, s') \<longrightarrow>
            (\<exists>ns. createdIds resps = map (\<lambda>n. Some (JNum (of_int n))) ns \<and>
               sorted_wrt (<) ns))"
proof (intro conjI impI)
  assume a: "router_post e reqBody (Some d) = (resp, s1) \<and> status resp = 201"
  from post_step [OF assms] a obtain d1 where
    d1: "s1 = Some d1" "evolves d d1" "body resp = JObj [(js ''id'', JNum (seqValue d + 1))]"
      "seqValue d1 = seqValue d + 1"
    by blast
  from d1(2) have "counterOk d1" by (simp add: evolves_def consistent_def)
  then have "of_int \<lfloor>seqValue d1\<rfloor> = seqValue d1" by (rule counterOk_integer)
  with d1 show "\<exists>d1 n. s1 = Some d1 \<and> body resp = JObj [(js ''id'', JNum (of_int n))] \<and>
               of_int n = seqValue d + 1 \<and> seqValue d1 = of_int n"
    by metis
next
  assume "serve reqs (Some d) = (resps, s')"
  from serve_created [OF assms this]
  show "\<exists>ns. createdIds resps = map (\<lambda>n. Some (JNum (of_int n))) ns \<and> sorted_wrt (<) ns"
    by blast
qed

theorem created_ids_increase_witness:
  "consistent db12 \<and>
   router_post quiet (Some grace) (Some db12) =
     (\<lparr>status = 201, body = JObj [(js ''id'', JNum 13)]\<rparr>,
      snd (router_post quiet (Some grace) (Some db12))) \<and>
   (\<exists>d1 n. snd (router_post quiet (Some grace) (Some db12)) = Some d1 \<and>
      JObj [(js ''id'', JNum 13)] = JObj [(js ''id'', JNum (of_int n))] \<and>
      of_int n = seqValue db12 + 1 \<and> seqValue d1 = of_int n) \<and>
   createdIds (fst (serve
      [(quiet, Post (Some grace)), (quiet, Delete (js ''13'')), (quiet, Post (Some nameless)),
       (offline, Post (Some grace)), (quiet\<lparr>objectId := 3\<rparr>, Post (Some grace))] (Some db12))) =
     [Some (JNum 13), Some (JNum 14)] \<and>
   (\<exists>ns. [Some (JNum 13), Some (JNum 14)] = map (\<lambda>n. Some (JNum (of_int n))) ns \<and>
      sorted_wrt (<) ns)"
proof -
  let ?reqs = "[(quiet, Post (Some grace)), (quiet, Delete (js ''13'')), (quiet, Post (Some nameless)),
       (offline, Post (Some grace)), (quiet\<lparr>objectId := 3\<rparr>, Post (Some grace))]"
  have c: "consistent db12" by code_simp
  have p: "router_post quiet (Some grace) (Some db12) =
     (\<lparr>status = 201, body = JObj [(js ''id'', JNum 13)]\<rparr>,
      snd (router_post quiet (Some grace) (Some db12)))" by code_simp
  have i: "createdIds (fst (serve ?reqs (Some db12))) = [Some (JNum 13), Some (JNum 14)]"
    by code_simp
  have sv: "serve ?reqs (Some db12) = (fst (serve ?reqs (Some db12)), snd (serve ?reqs (Some db12)))"
    by simp
  from created_ids_increase [OF c, of quiet "Some grace"
      "\<lparr>status = 201, body = JObj [(js ''id'', JNum 13)]\<rparr>"
      "snd (router_post quiet (Some grace) (Some db12))" ?reqs
      "fst (serve ?reqs (Some db12))" "snd (serve ?reqs (Some db12))"] p sv
  have "(\<exists>d1 n. snd (router_post quiet (Some grace) (Some db12)) = Some d1 \<and>
      JObj [(js ''id'', JNum 13)] = JObj [(js ''id'', JNum (of_int n))] \<and>
      of_int n = seqValue db12 + 1 \<and> seqValue d1 = of_int n) \<and>
    (\<exists>ns. createdIds (fst (serve ?reqs (Some db12))) = map (\<lambda>n. Some (JNum (of_int n))) ns \<and>
      sorted_wrt (<) ns)"
    by simp
  with c p i show ?thesis by simp
qed

section \<open>C3: what an update leaves alone\<close>

text \<open>
  C3. For every PUT /contacts/:id request for a contact that exists (a consistent
  database, an id read as the number of the contact, a body whose field names are
  top-level names), whatever the body holds under \<^verbatim>\<open>id\<close> and \<^verbatim>\<open>_id\<close> and whether
  or not a driver call fails: the fields \<^verbatim>\<open>id\<close> and \<^verbatim>\<open>_id\<close> of the stored contact
  are unchanged after the request, and so is every field that the body does not supply;
  every other contact and the counters are unchanged.
\<close>

theorem put_keeps_identifiers:
  assumes c: "consistent d" and m: "c \<in> set (contacts d)"
    and i: "map_of c (js ''id'') = Some (JNum n)" and p: "parseInt params_id = Finite n"
    and plain: "list_all plainKey (map fst (spread reqBody))"
    and h: "router_put_id e params_id reqBody (Some d) = (resp, s')"
  shows "\<exists>d' c'. s' = Some d' \<and>
           contacts d' = map (\<lambda>x. if x = c then c' else x) (contacts d) \<and>
           counters d' = counters d \<and>
           map_of c' (js ''id'') = map_of c (js ''id'') \<and>
           map_of c' (js ''_id'') = map_of c (js ''_id'') \<and>
           (\<forall>k. k \<notin> fst ` set (spread reqBody) \<longrightarrow> map_of c' k = map_of c k)"
proof -
  let ?d' = "d\<lparr>contacts := map (\<lambda>x. if x = c then updated reqBody c else x) (contacts d)\<rparr>"
  have same: "contacts d = map (\<lambda>x. if x = c then c else x) (contacts d)"
    by (simp add: map_idI)
  have new: "map_of (updated reqBody c) (js ''id'') = map_of c (js ''id'') \<and>
             map_of (updated reqBody c) (js ''_id'') = map_of c (js ''_id'') \<and>
             (\<forall>k. k \<notin> fst ` set (spread reqBody) \<longrightarrow> map_of (updated reqBody c) k = map_of c k)"
    by (simp add: updated_id updated_oid updated_lookup)
  have "s' = Some d \<or> s' = Some ?d'"
    using h unfolding put_found [OF c m i p]
    by (auto simp: Let_def split: option.splits)
  then show ?thesis
  proof
    assume "s' = Some d"
    with same show ?thesis by blast
  next
    assume "s' = Some ?d'"
    moreover have "contacts ?d' = map (\<lambda>x. if x = c then updated reqBody c else x) (contacts d)"
      by simp
    moreover have "counters ?d' = counters d" by simp
    ultimately show ?thesis using new by blast
  qed
qed

theorem put_keeps_identifiers_witness:
  "consistent db12 \<and> ada \<in> set (contacts db12) \<and> map_of ada (js ''id'') = Some (JNum 12) \<and>
   parseInt (js ''12'') = Finite 12 \<and> list_all plainKey (map fst (spread (Some newEmail))) \<and>
   (\<exists>d' c'. snd (router_put_id quiet (js ''12'') (Some newEmail) (Some db12)) = Some d' \<and>
      contacts d' = [c'] \<and> counters d' = counters db12 \<and>
      map_of c' (js ''id'') = Some (JNum 12) \<and> map_of c' (js ''_id'') = Some (JObjectId 1) \<and>
      map_of c' (js ''firstName'') = Some (JStr (js ''Ada'')))"
proof -
  have c: "consistent db12" by code_simp
  have m: "ada \<in> set (contacts db12)" by (simp add: db12_def)
  have i: "map_of ada (js ''id'') = Some (JNum 12)" by (simp add: ada_def)
  have p: "parseInt (js ''12'') = Finite 12" by code_simp
  have pl: "list_all plainKey (map fst (spread (Some newEmail)))" by code_simp
  have h: "router_put_id quiet (js ''12'') (Some newEmail) (Some db12) =
      (fst (router_put_id quiet (js ''12'') (Some newEmail) (Some db12)),
       snd (router_put_id quiet (js ''12'') (Some newEmail) (Some db12)))" by simp
  have k: "js ''firstName'' \<notin> fst ` set (spread (Some newEmail))"
    by (simp add: newEmail_spread)
  have a: "map_of ada (js ''_id'') = Some (JObjectId 1)"
    "map_of ada (js ''firstName'') = Some (JStr (js ''Ada''))" "contacts db12 = [ada]"
    by (simp_all add: ada_def db12_def)
  from put_keeps_identifiers [OF c m i p pl h] obtain d' c' where
    r: "snd (router_put_id quiet (js ''12'') (Some newEmail) (Some db12)) = Some d'"
      "contacts d' = map (\<lambda>x. if x = ada then c' else x) (contacts db12)"
      "counters d' = counters db12"
      "map_of c' (js ''id'') = map_of ada (js ''id'')"
      "map_of c' (js ''_id'') = map_of ada (js ''_id'')"
      "\<forall>k. k \<notin> fst ` set (spread (Some newEmail)) \<longrightarrow> map_of c' k = map_of ada k"
    by (elim exE conjE)
  from r(6) k have f: "map_of c' (js ''firstName'') = map_of ada (js ''firstName'')" by blast
  have "contacts d' = [c']" unfolding r(2) a(3) by simp
  with r(1,3) have "snd (router_put_id quiet (js ''12'') (Some newEmail) (Some db12)) = Some d' \<and>
      contacts d' = [c'] \<and> counters d' = counters db12 \<and>
      map_of c' (js ''id'') = Some (JNum 12) \<and> map_of c' (js ''_id'') = Some (JObjectId 1) \<and>
      map_of c' (js ''firstName'') = Some (JStr (js ''Ada''))"
    by (simp only: r(4,5) f i a(1,2) simp_thms)
  then have "\<exists>d' c'. snd (router_put_id quiet (js ''12'') (Some newEmail) (Some db12)) = Some d' \<and>
      contacts d' = [c'] \<and> counters d' = counters db12 \<and>
      map_of c' (js ''id'') = Some (JNum 12) \<and> map_of c' (js ''_id'') = Some (JObjectId 1) \<and>
      map_of c' (js ''firstName'') = Some (JStr (js ''Ada''))"
    by (intro exI)
  with c m i p pl show ?thesis by (intro conjI)
qed

section \<open>C4: deleting a contact twice\<close>

text \<open>
  C4. If DELETE /contacts/:id succeeds with status 200 for an id read as \<open>n\<close>, then a later
  DELETE for an id read as the same \<open>n\<close> whose driver call does not fail responds with
  status 404 and leaves the database as it was. Any requests may be served in between:
  the routes never give an id a second time, so none of them creates a contact with id
  \<open>n\<close> again.
\<close>

theorem second_delete_not_found:
  assumes c: "consistent d"
    and d1: "router_delete_id e1 i (Some d) = (r1, s1)" "status r1 = 200"
    and sv: "serve reqs s1 = (resps, s2)"
    and j: "parseInt j = parseInt i" and f: "fault e2 0 = None"
  shows "router_delete_id e2 j s2 =
           (\<lparr>status = 404, body = errorJson (js ''Contact not found'')\<rparr>, s2)"
proof -
  from delete_succeeds [OF d1] obtain q c0 where
    q: "parseInt i = Finite q" and
    f0: "find (matchesId (Finite q)) (contacts d) = Some c0" and
    s1: "s1 = Some (d\<lparr>contacts := deleteFirst (matchesId (Finite q)) (contacts d)\<rparr>)"
    by blast
  let ?d1 = "d\<lparr>contacts := deleteFirst (matchesId (Finite q)) (contacts d)\<rparr>"
  have m: "c0 \<in> set (contacts d)" "matchesId (Finite q) c0"
    using find_Some_mem [OF f0] by (rule conjunct1, rule conjunct2)
  have b0: "boundedId (seqValue d) (map_of c0 (js ''id''))"
    using c m(1) by (rule consistent_bounded)
  have i0: "map_of c0 (js ''id'') = Some (JNum q)"
    using matchesId_bounded [OF b0, of q] m(2) by (simp only:)
  with b0 have le: "q \<le> seqValue d" by (simp add: boundedId_def)
  have c1: "consistent ?d1"
    using evolves_delete [OF c] by (simp add: evolves_def)
  have "find (matchesId (Finite q)) (deleteFirst (matchesId (Finite q)) (contacts d)) = None"
  proof (rule deleteFirst_unique [where f = "\<lambda>c. map_of c (js ''id'')", OF _ f0])
    show "distinct (map (\<lambda>c. map_of c (js ''id'')) (contacts d))"
      using c by (simp add: consistent_def)
    show "\<forall>x \<in> set (contacts d). matchesId (Finite q) x \<longrightarrow>
            map_of x (js ''id'') = map_of c0 (js ''id'')"
      using matchesId_bounded [OF consistent_bounded [OF c]] i0 by simp
  qed
  then have "\<forall>x \<in> set (contacts ?d1). map_of x (js ''id'') \<noteq> Some (JNum q)"
    using consistent_find_None [OF c1, of q] by simp
  then have ab: "Some (JNum q) \<notin> set (idsOf (contacts ?d1))"
    by (simp only: absent_iff)
  from le have le1: "q \<le> seqValue ?d1" by simp
  from serve_absent [OF c1 le1 ab] sv s1 obtain d2 where
    d2: "s2 = Some d2" "consistent d2" "Some (JNum q) \<notin> set (idsOf (contacts d2))"
    by blast
  from d2(3) have "\<forall>x \<in> set (contacts d2). map_of x (js ''id'') \<noteq> Some (JNum q)"
    by (simp only: absent_iff)
  then have "find (matchesId (Finite q)) (contacts d2) = None"
    using consistent_find_None [OF d2(2), of q] by simp
  with d2(1) j q f show ?thesis
    by (simp add: delete_outcome)
qed

theorem second_delete_not_found_witness:
  "consistent db12 \<and>
   status (fst (router_delete_id quiet (js ''12'') (Some db12))) = 200 \<and>
   parseInt (js ''12abc'') = parseInt (js ''12'') \<and> fault quiet 0 = None \<and>
   router_delete_id quiet (js ''12abc'')
     (snd (serve [(quiet, Post (Some grace)), (quiet, GetAll)]
        (snd (router_delete_id quiet (js ''12'') (Some db12))))) =
     (\<lparr>status = 404, body = errorJson (js ''Contact not found'')\<rparr>,
      snd (serve [(quiet, Post (Some grace)), (quiet, GetAll)]
        (snd (router_delete_id quiet (js ''12'') (Some db12)))))"
proof -
  let ?s1 = "snd (router_delete_id quiet (js ''12'') (Some db12))"
  let ?reqs = "[(quiet, Post (Some grace)), (quiet, GetAll)]"
  have c: "consistent db12" by code_simp
  have h1: "router_delete_id quiet (js ''12'') (Some db12) =
              (fst (router_delete_id quiet (js ''12'') (Some db12)), ?s1)" by simp
  have s: "status (fst (router_delete_id quiet (js ''12'') (Some db12))) = 200" by code_simp
  have h2: "serve ?reqs ?s1 = (fst (serve ?reqs ?s1), snd (serve ?reqs ?s1))" by simp
  have p: "parseInt (js ''12abc'') = parseInt (js ''12'')" by code_simp
  have f: "fault quiet 0 = None" by (simp add: quiet_def)
  show ?thesis
    using c s p f second_delete_not_found [OF c h1 s h2 p f] by simp
qed

section \<open>C5: fetching a contact\<close>

text \<open>
  C5. For every id path parameter that \<^verbatim>\<open>parseInt\<close> reads as the number \<open>n\<close>, on a
  consistent database whose driver call does not fail, GET /contacts/:id responds with
  status 404 and \<open>{error: "Contact not found"}\<close> when no stored contact has id \<open>n\<close>, and
  with status 200 and exactly the stored contact whose id is \<open>n\<close> when there is one; the
  database is left as it was (in both cases).
\<close>

theorem get_by_id:
  assumes "consistent d" and "parseInt i = Finite n" and "fault e 0 = None"
  shows "((\<forall>c \<in> set (contacts d). map_of c (js ''id'') \<noteq> Some (JNum n)) \<longrightarrow>
            router_get_id e i (Some d) =
              (\<lparr>status = 404, body = errorJson (js ''Contact not found'')\<rparr>, Some d)) \<and>
         (\<forall>c \<in> set (contacts d). map_of c (js ''id'') = Some (JNum n) \<longrightarrow>
            router_get_id e i (Some d) = (\<lparr>status = 200, body = JObj c\<rparr>, Some d))"
proof (intro conjI impI ballI)
  assume "\<forall>c \<in> set (contacts d). map_of c (js ''id'') \<noteq> Some (JNum n)"
  then have "find (matchesId (Finite n)) (contacts d) = None"
    using consistent_find_None [OF assms(1)] by simp
  with assms(2,3) show "router_get_id e i (Some d) =
      (\<lparr>status = 404, body = errorJson (js ''Contact not found'')\<rparr>, Some d)"
    by (simp add: get_id_outcome)
next
  fix c assume "c \<in> set (contacts d)" "map_of c (js ''id'') = Some (JNum n)"
  then have "find (matchesId (Finite n)) (contacts d) = Some c"
    using consistent_find_Some [OF assms(1)] by simp
  with assms(2,3) show "router_get_id e i (Some d) = (\<lparr>status = 200, body = JObj c\<rparr>, Some d)"
    by (simp add: get_id_outcome)
qed

theorem get_by_id_witness:
  "consistent db12 \<and> parseInt (js ''12'') = Finite 12 \<and> parseInt (js ''13'') = Finite 13 \<and>
   fault quiet 0 = None \<and>
   ada \<in> set (contacts db12) \<and> map_of ada (js ''id'') = Some (JNum 12) \<and>
   router_get_id quiet (js ''12'') (Some db12) = (\<lparr>status = 200, body = JObj ada\<rparr>, Some db12) \<and>
   list_all (\<lambda>c. map_of c (js ''id'') \<noteq> Some (JNum 13)) (contacts db12) \<and>
   router_get_id quiet (js ''13'') (Some db12) =
     (\<lparr>status = 404, body = errorJson (js ''Contact not found'')\<rparr>, Some db12)"
proof -
  have c: "consistent db12" by code_simp
  have p: "parseInt (js ''12'') = Finite 12" "parseInt (js ''13'') = Finite 13" by code_simp+
  have f: "fault quiet 0 = None" by (simp add: quiet_def)
  have a: "ada \<in> set (contacts db12)" "map_of ada (js ''id'') = Some (JNum 12)"
    by (simp_all add: db12_def ada_def)
  have n: "\<forall>c \<in> set (contacts db12). map_of c (js ''id'') \<noteq> Some (JNum 13)"
    by (simp add: db12_def ada_def)
  show ?thesis
    using c p f a n get_by_id [OF c p(1) f] get_by_id [OF c p(2) f]
    by (simp add: list_all_iff)
qed

section \<open>C6: the required fields of a new contact\<close>

text \<open>
  C6. The claim reads: for every POST /contacts request body in which at least one of the
  five required fields is missing, the handler responds with status 400 and
  \<open>{error: string}\<close>, and neither the contacts collection nor the sequence counter is
  modified; when all five fields are present it responds 201 with body \<open>{id}\<close>. The
  handler tests each field with \<^verbatim>\<open>!field\<close>: a body that has all five fields, the
  first name being the empty string, is answered with status 400.
\<close>

theorem post_all_present_counterexample:
  "getProp nameless (js ''firstName'') = Some (JStr []) \<and>
   getProp nameless (js ''lastName'') = Some (JStr (js ''Hopper'')) \<and>
   getProp nameless (js ''email'') = Some (JStr (js ''grace@example.org'')) \<and>
   getProp nameless (js ''favoriteColor'') = Some (JStr (js ''blue'')) \<and>
   getProp nameless (js ''birthday'') = Some (JStr (js ''1906-12-09'')) \<and>
   router_post quiet (Some nameless) (Some db12) =
     (\<lparr>status = 400, body = errorJson (js ''All fields are required'')\<rparr>, Some db12)"
  by code_simp

text \<open>
  C6, as amended: for every POST /contacts request body (a JSON object or array) in which
  at least one of the five required fields is missing or falsy, the handler responds
  with status 400 and \<open>{error: "All fields are required"}\<close> and leaves the server as it
  was, the contacts collection and the sequence counter included; when all five fields
  are present with truthy values, the counter is an integer or does not exist yet, the
  two driver calls do not fail and the generated \<^verbatim>\<open>_id\<close> is new, it responds with
  status 201 and the body \<open>{id}\<close>, where \<open>id\<close> is the counter after its increment, and
  the contact is stored under that id.
\<close>

theorem post_required_fields:
  assumes "b \<noteq> JNull"
  shows "(\<not> list_all (\<lambda>k. truthy (getProp b k)) requiredFields \<longrightarrow>
            router_post e (Some b) s =
              (\<lparr>status = 400, body = errorJson (js ''All fields are required'')\<rparr>, s)) \<and>
         (list_all (\<lambda>k. truthy (getProp b k)) requiredFields \<and> counterOk d \<and>
          fault e 0 = None \<and> fault e 1 = None \<and> freshObjectId e d \<longrightarrow>
            (\<exists>d'. router_post e (Some b) (Some d) =
                     (\<lparr>status = 201, body = JObj [(js ''id'', JNum (seqValue d + 1))]\<rparr>, Some d') \<and>
                   contacts d' = contacts d @ [newContact e b (seqValue d + 1)] \<and>
                   seqValue d' = seqValue d + 1))"
proof (intro conjI impI)
  assume "\<not> list_all (\<lambda>k. truthy (getProp b k)) requiredFields"
  with assms show "router_post e (Some b) s =
      (\<lparr>status = 400, body = errorJson (js ''All fields are required'')\<rparr>, s)"
    by (rule post_missing)
next
  assume a: "list_all (\<lambda>k. truthy (getProp b k)) requiredFields \<and> counterOk d \<and>
          fault e 0 = None \<and> fault e 1 = None \<and> freshObjectId e d"
  then have ok: "counterOk d" by simp
  from findOneAndUpdate_contacts [OF ok] obtain cnt d1 where
    f: "findOneAndUpdate (js ''contacts'') d = (Inr cnt, d1)" and
    d1: "seqValue d1 = seqValue d + 1" by blast
  let ?d' = "d1\<lparr>contacts := contacts d @ [newContact e b (seqValue d + 1)]\<rparr>"
  have "router_post e (Some b) (Some d) =
          (\<lparr>status = 201, body = JObj [(js ''id'', JNum (seqValue d + 1))]\<rparr>, Some ?d')"
    using a f by (simp add: post_outcome [OF ok assms] Let_def)
  moreover have "contacts ?d' = contacts d @ [newContact e b (seqValue d + 1)]" by simp
  moreover have "seqValue ?d' = seqValue d + 1" using d1 by simp
  ultimately show "\<exists>d'. router_post e (Some b) (Some d) =
                     (\<lparr>status = 201, body = JObj [(js ''id'', JNum (seqValue d + 1))]\<rparr>, Some d') \<and>
                   contacts d' = contacts d @ [newContact e b (seqValue d + 1)] \<and>
                   seqValue d' = seqValue d + 1"
    by blast
qed

theorem post_required_fields_witness:
  "nameless \<noteq> JNull \<and> grace \<noteq> JNull \<and>
   \<not> list_all (\<lambda>k. truthy (getProp nameless k)) requiredFields \<and>
   router_post quiet (Some nameless) (Some db12) =
     (\<lparr>status = 400, body = errorJson (js ''All fields are required'')\<rparr>, Some db12) \<and>
   list_all (\<lambda>k. truthy (getProp grace k)) requiredFields \<and> counterOk db12 \<and>
   fault quiet 0 = None \<and> fault quiet 1 = None \<and> freshObjectId quiet db12 \<and>
   (\<exists>d'. router_post quiet (Some grace) (Some db12) =
           (\<lparr>status = 201, body = JObj [(js ''id'', JNum (seqValue db12 + 1))]\<rparr>, Some d') \<and>
         contacts d' = contacts db12 @ [newContact quiet grace (seqValue db12 + 1)] \<and>
         seqValue d' = seqValue db12 + 1)"
proof -
  have n: "nameless \<noteq> JNull" "grace \<noteq> JNull" by (simp_all add: nameless_def grace_def)
  have m: "\<not> list_all (\<lambda>k. truthy (getProp nameless k)) requiredFields" by code_simp
  have g: "list_all (\<lambda>k. truthy (getProp grace k)) requiredFields" by code_simp
  have c: "counterOk db12" by code_simp
  have f: "fault quiet 0 = None" "fault quiet 1 = None" by (simp_all add: quiet_def)
  have o: "freshObjectId quiet db12" by code_simp
  show ?thesis
    using n m g c f o post_required_fields [OF n(1), where e = quiet and s = "Some db12"]
      post_required_fields [OF n(2), where e = quiet and d = db12]
    by simp
qed

section \<open>C7: the response to an update\<close>



section \<open>C8: errors\<close>



section \<open>C9: the ids that parseInt accepts\<close>




section \<open>C10: falsy fields of a new contact\<close>

text \<open>
  C10. For every POST /contacts request body in which one of the five required fields is
  present with a falsy value (the empty string, 0, \<^verbatim>\<open>false\<close> or \<^verbatim>\<open>null\<close>), the
  handler responds with status 400 and leaves the server as it was, exactly as it does
  for the same body without that field.
\<close>

theorem post_falsy_as_absent:
  assumes "k \<in> set requiredFields" and "map_of kvs k = Some v"
    and "v = JStr [] \<or> v = JNum 0 \<or> v = JBool False \<or> v = JNull"
  shows "router_post e (Some (JObj kvs)) s =
           (\<lparr>status = 400, body = errorJson (js ''All fields are required'')\<rparr>, s) \<and>
         router_post e (Some (JObj (AList.delete k kvs))) s = router_post e (Some (JObj kvs)) s"
proof -
  have f: "\<not> truthy (getProp (JObj kvs) k)"
    using assms(2) falsy_cases [OF assms(3)] by simp
  have "map_of (AList.delete k kvs) k = None" by (simp add: delete_conv')
  then have g: "\<not> truthy (getProp (JObj (AList.delete k kvs)) k)" by simp
  have 1: "\<not> list_all (\<lambda>k. truthy (getProp (JObj kvs) k)) requiredFields"
    using f assms(1) by (auto simp: list_all_iff)
  have 2: "\<not> list_all (\<lambda>k'. truthy (getProp (JObj (AList.delete k kvs)) k')) requiredFields"
    using g assms(1) by (auto simp: list_all_iff)
  show ?thesis
    using post_missing [OF _ 1, of e s] post_missing [OF _ 2, of e s] by simp
qed

theorem post_falsy_as_absent_witness:
  "js ''firstName'' \<in> set requiredFields \<and>
   map_of [(js ''firstName'', JNum 0), (js ''lastName'', JStr (js ''Hopper''))] (js ''firstName'')
     = Some (JNum 0) \<and>
   router_post quiet
     (Some (JObj [(js ''firstName'', JNum 0), (js ''lastName'', JStr (js ''Hopper''))])) (Some db12) =
     (\<lparr>status = 400, body = errorJson (js ''All fields are required'')\<rparr>, Some db12) \<and>
   router_post quiet
     (Some (JObj (AList.delete (js ''firstName'')
        [(js ''firstName'', JNum 0), (js ''lastName'', JStr (js ''Hopper''))]))) (Some db12) =
   router_post quiet
     (Some (JObj [(js ''firstName'', JNum 0), (js ''lastName'', JStr (js ''Hopper''))])) (Some db12)"
proof -
  have k: "js ''firstName'' \<in> set requiredFields" by (simp add: requiredFields_def)
  have m: "map_of [(js ''firstName'', JNum 0), (js ''lastName'', JStr (js ''Hopper''))]
             (js ''firstName'') = Some (JNum 0)" by simp
  show ?thesis
    using k m post_falsy_as_absent [OF k m, of quiet "Some db12"] by simp
qed

end
